theory Spec2Isabelle
  imports Main
begin

section \<open>The crawl-end finder (server/environment.ts, setupOnCrawlEnd)\<close>

text \<open>
  The closure returned by \<^verbatim>\<open>setupOnCrawlEnd\<close> owns two id sets, a deferred, a timeout
  handle and the two flags \<^verbatim>\<open>cancelled\<close> and \<^verbatim>\<open>crawlEndCalled\<close>. The record below is that
  closure state. Three fields are observations added to it: \<open>onCrawlEnd_calls\<close> counts
  the invocations of the \<^verbatim>\<open>onCrawlEnd\<close> callback, \<open>done_calls\<close> lists the ids whose
  \<^verbatim>\<open>done()\<close> was invoked, and \<open>scheduled\<close> holds the handles of timeouts that were set
  and neither cleared nor fired yet.
\<close>

record crawl_end_finder =
  registeredIds :: "string set"
  seenIds :: "string set"
  promise_resolved :: bool
  timeoutHandle :: "nat option"
  cancelled :: bool
  crawlEndCalled :: bool
  scheduled :: "nat set"
  next_handle :: nat
  onCrawlEnd_calls :: nat
  done_calls :: "string list"

definition setupOnCrawlEnd :: crawl_end_finder where
  "setupOnCrawlEnd =
     \<lparr> registeredIds = {}, seenIds = {}, promise_resolved = False,
       timeoutHandle = None, cancelled = False, crawlEndCalled = False,
       scheduled = {}, next_handle = 0, onCrawlEnd_calls = 0, done_calls = [] \<rparr>"

definition cancel :: "crawl_end_finder \<Rightarrow> crawl_end_finder" where
  "cancel s = s\<lparr>cancelled := True\<rparr>"

definition callOnCrawlEnd :: "crawl_end_finder \<Rightarrow> crawl_end_finder" where
  "callOnCrawlEnd s =
     (let s1 = (if \<not> cancelled s \<and> \<not> crawlEndCalled s
                then s\<lparr>crawlEndCalled := True, onCrawlEnd_calls := Suc (onCrawlEnd_calls s)\<rparr>
                else s)
      in s1\<lparr>promise_resolved := True\<rparr>)"

definition registerRequestProcessing :: "string \<Rightarrow> crawl_end_finder \<Rightarrow> crawl_end_finder" where
  "registerRequestProcessing i s =
     (if i \<notin> seenIds s
      then s\<lparr>seenIds := insert i (seenIds s),
             registeredIds := insert i (registeredIds s),
             done_calls := done_calls s @ [i]\<rparr>
      else s)"

text \<open>\<^verbatim>\<open>clearTimeout\<close> and \<^verbatim>\<open>setTimeout\<close> of the host, on the set of scheduled handles.\<close>

definition clearTimeout :: "nat \<Rightarrow> crawl_end_finder \<Rightarrow> crawl_end_finder" where
  "clearTimeout h s = s\<lparr>scheduled := scheduled s - {h}\<rparr>"

definition setTimeout :: "crawl_end_finder \<Rightarrow> crawl_end_finder" where
  "setTimeout s =
     s\<lparr>timeoutHandle := Some (next_handle s),
       scheduled := insert (next_handle s) (scheduled s),
       next_handle := Suc (next_handle s)\<rparr>"

definition checkIfCrawlEndAfterTimeout :: "crawl_end_finder \<Rightarrow> crawl_end_finder" where
  "checkIfCrawlEndAfterTimeout s =
     (if cancelled s \<or> registeredIds s \<noteq> {} then s
      else setTimeout (case timeoutHandle s of None \<Rightarrow> s | Some h \<Rightarrow> clearTimeout h s))"

definition callOnCrawlEndWhenIdle :: "crawl_end_finder \<Rightarrow> crawl_end_finder" where
  "callOnCrawlEndWhenIdle s =
     (if cancelled s \<or> registeredIds s \<noteq> {} then s else callOnCrawlEnd s)"

definition markIdAsDone :: "string \<Rightarrow> crawl_end_finder \<Rightarrow> crawl_end_finder" where
  "markIdAsDone i s =
     (if i \<in> registeredIds s
      then checkIfCrawlEndAfterTimeout (s\<lparr>registeredIds := registeredIds s - {i}\<rparr>)
      else s)"

text \<open>
  \<^verbatim>\<open>if (ignoredId)\<close> is a truthiness test: an absent argument and the empty string both
  fail it.
\<close>

definition waitForRequestsIdle :: "string option \<Rightarrow> crawl_end_finder \<Rightarrow> crawl_end_finder" where
  "waitForRequestsIdle ignoredId s =
     (case ignoredId of
        None \<Rightarrow> s
      | Some i \<Rightarrow>
          if i \<noteq> [] then markIdAsDone i (s\<lparr>seenIds := insert i (seenIds s)\<rparr>) else s)"

text \<open>
  What can happen to a finder: the three calls of its interface, the settling of a
  \<^verbatim>\<open>done()\<close> promise (whose \<^verbatim>\<open>finally\<close> runs \<^verbatim>\<open>markIdAsDone\<close>), and the firing of a
  timeout, which runs \<^verbatim>\<open>callOnCrawlEndWhenIdle\<close> when that handle is still scheduled.
\<close>

datatype finder_event =
    Register string
  | DoneSettled string
  | WaitIdle "string option"
  | Cancel
  | TimerFired nat

fun finder_step :: "crawl_end_finder \<Rightarrow> finder_event \<Rightarrow> crawl_end_finder" where
  "finder_step s (Register i) = registerRequestProcessing i s"
| "finder_step s (DoneSettled i) = markIdAsDone i s"
| "finder_step s (WaitIdle ig) = waitForRequestsIdle ig s"
| "finder_step s Cancel = cancel s"
| "finder_step s (TimerFired h) =
     (if h \<in> scheduled s then callOnCrawlEndWhenIdle (s\<lparr>scheduled := scheduled s - {h}\<rparr>) else s)"

definition finder_run :: "crawl_end_finder \<Rightarrow> finder_event list \<Rightarrow> crawl_end_finder" where
  "finder_run s evs = foldl finder_step s evs"

text \<open>
  Invariants of the finder used below: the callback count mirrors \<^verbatim>\<open>crawlEndCalled\<close>; an
  id that was only ever ignored is seen and not registered; an id that was never
  registered is not in the registered set and its \<^verbatim>\<open>done\<close> was not invoked.
\<close>

definition once_inv :: "crawl_end_finder \<Rightarrow> bool" where
  "once_inv s = (onCrawlEnd_calls s = (if crawlEndCalled s then 1 else 0))"

definition ignored_inv :: "string \<Rightarrow> crawl_end_finder \<Rightarrow> bool" where
  "ignored_inv i s = (i \<in> seenIds s \<and> i \<notin> registeredIds s)"

definition never_registered :: "string \<Rightarrow> crawl_end_finder \<Rightarrow> bool" where
  "never_registered i s = (i \<notin> registeredIds s \<and> i \<notin> set (done_calls s))"

section \<open>Hot-update invalidation (server/environment.ts, invalidateModule)\<close>

text \<open>
  Module nodes are objects shared between the maps of the module graph and the importer
  sets, and \<^verbatim>\<open>invalidateModule\<close> mutates one in place. The graph is therefore a store:
  \<open>nodes\<close> maps a reference to the node it holds, and \<open>urlToModuleMap\<close>,
  \<open>idToModuleMap\<close> and \<open>importers\<close> hold references. A property value of a \<^verbatim>\<open>meta\<close>
  object is kept as text.
\<close>

type_synonym meta_object = "string \<rightharpoonup> string"

record module_info =
  info_id :: string
  info_meta :: meta_object

record module_node =
  mod_file :: "string option"
  isSelfAccepting :: "bool option"
  lastHMRTimestamp :: int
  lastHMRInvalidationReceived :: bool
  importers :: "nat list"
  meta :: "meta_object option"
  info :: "module_info option"

record module_graph =
  urlToModuleMap :: "string \<rightharpoonup> nat"
  idToModuleMap :: "string \<rightharpoonup> nat"
  nodes :: "nat \<rightharpoonup> module_node"


text \<open>
  The collaborators of \<^verbatim>\<open>invalidateModule\<close> that live outside these sources are taken
  as parameters: the two picocolors functions, \<^verbatim>\<open>getShortName\<close> of server/hmr.ts on a
  file name, and what \<^verbatim>\<open>updateModules\<close> of server/hmr.ts does to the module graph.
\<close>

record env_deps =
  yellow :: "string \<Rightarrow> string"
  dim :: "string \<Rightarrow> string"
  getShortName :: "string \<Rightarrow> string \<Rightarrow> string"
  updateModules_graph :: "string \<Rightarrow> nat list \<Rightarrow> int \<Rightarrow> bool \<Rightarrow> module_graph \<Rightarrow> module_graph"

record dev_environment =
  moduleGraph :: module_graph
  config_root :: string
  logger_info :: "string list"
  updateModules_calls :: "(string \<times> nat list \<times> int \<times> bool) list"

text \<open>
  Modelled from the spec: \<^verbatim>\<open>updateModules\<close> (server/hmr.ts is not among the sources) is
  the update-modules routine that the listener calls on the importers. The model records
  the call with its arguments and applies the parameter \<open>updateModules_graph\<close> to the
  module graph.
\<close>

definition updateModules ::
  "env_deps \<Rightarrow> dev_environment \<Rightarrow> string \<Rightarrow> nat list \<Rightarrow> int \<Rightarrow> bool \<Rightarrow> dev_environment" where
  "updateModules d env f mods ts afterInvalidation =
     env\<lparr>updateModules_calls := updateModules_calls env @ [(f, mods, ts, afterInvalidation)],
         moduleGraph := updateModules_graph d f mods ts afterInvalidation (moduleGraph env)\<rparr>"












definition ex_node :: module_node where
  "ex_node =
     \<lparr>mod_file = Some ''/m.js'', isSelfAccepting = Some True, lastHMRTimestamp = 100,
      lastHMRInvalidationReceived = False, importers = [1], meta = None, info = None\<rparr>"





section \<open>The plugin container (server/pluginContainer.ts): data\<close>

subsection \<open>Source maps\<close>

text \<open>
  A source map that has a \<^verbatim>\<open>version\<close> property is a \<open>source_map\<close>; \<^verbatim>\<open>null\<close> entries
  of \<^verbatim>\<open>sources\<close> and \<^verbatim>\<open>sourcesContent\<close> are \<open>None\<close>. An object without a \<^verbatim>\<open>version\<close>
  property is kept with its \<^verbatim>\<open>mappings\<close> property only, which is what the code reads of
  it; \<^verbatim>\<open>{mappings: ''}\<close> is \<open>empty_sentinel\<close>.
\<close>

record source_map =
  version :: nat
  sources :: "string option list"
  sourcesContent :: "string option list option"
  mappings :: string
  names :: "string list"

datatype map_object = Versioned source_map | Unversioned "string option"

definition empty_sentinel :: map_object where
  "empty_sentinel = Unversioned (Some [])"

text \<open>
  \<^verbatim>\<open>SourceDescription['map']\<close>: absent (\<^verbatim>\<open>undefined\<close> or \<^verbatim>\<open>null\<close>), a JSON string, or an
  object. The members of a source-map chain are the non-null ones.
\<close>

datatype map_input = NoMap | MapString string | MapObject map_object

datatype chain_member = ChainString string | ChainObject map_object

text \<open>
  The truthiness test \<^verbatim>\<open>if (map)\<close> that guards every push onto a chain: an absent map and
  the empty string fail it.
\<close>

fun truthy_map :: "map_input \<Rightarrow> chain_member option" where
  "truthy_map NoMap = None"
| "truthy_map (MapString s) = (if s = [] then None else Some (ChainString s))"
| "truthy_map (MapObject m) = Some (ChainObject m)"

definition truthy_string :: "string option \<Rightarrow> bool" where
  "truthy_string s = (case s of None \<Rightarrow> False | Some x \<Rightarrow> x \<noteq> [])"

subsection \<open>Errors\<close>

text \<open>
  An error object, with the properties that the container sets or reads. The location and
  the code frame that \<^verbatim>\<open>formatError\<close> also derives are not part of the model.
\<close>

record rollup_error =
  err_code :: "string option"
  err_message :: string
  err_plugin :: "string option"
  err_id :: "string option"
  err_pluginCode :: "string option"

definition ERR_CLOSED_SERVER :: string where
  "ERR_CLOSED_SERVER = ''ERR_CLOSED_SERVER''"

text \<open>The error that \<^verbatim>\<open>throwClosedServerError\<close> throws.\<close>

definition closedServerError :: rollup_error where
  "closedServerError =
     \<lparr>err_code = Some ERR_CLOSED_SERVER,
      err_message = ''The server is being restarted or closed. Request is outdated'',
      err_plugin = None, err_id = None, err_pluginCode = None\<rparr>"

subsection \<open>Hook results and options\<close>

type_synonym attributes = "(string \<times> string) list"

record resolved_id =
  res_id :: string
  res_external :: "bool option"
  res_meta :: "meta_object option"

text \<open>
  What a \<^verbatim>\<open>resolveId\<close> handler may return: \<^verbatim>\<open>null\<close> or \<^verbatim>\<open>undefined\<close>, \<^verbatim>\<open>false\<close>, a
  string, or an object with an \<^verbatim>\<open>id\<close>.
\<close>

datatype resolve_id_result =
    ResolveNull
  | ResolveFalse
  | ResolveString string
  | ResolveObject resolved_id

record source_description =
  sd_code :: "string option"
  sd_map :: map_input
  sd_meta :: "meta_object option"

datatype load_result = LoadNull | LoadString string | LoadObject source_description

datatype transform_result =
    TransformNull
  | TransformString string
  | TransformObject source_description

text \<open>The options of \<^verbatim>\<open>this.resolve\<close>, of the container's \<^verbatim>\<open>resolveId\<close>, and of a handler.\<close>

record this_resolve_options =
  tr_attributes :: "attributes option"
  tr_custom :: "string option"
  tr_isEntry :: "bool option"
  skipSelf :: "bool option"

record resolve_options =
  ro_attributes :: "attributes option"
  ro_custom :: "string option"
  skip :: "nat set option"
  ro_scan :: "bool option"
  ro_isEntry :: "bool option"

record resolve_hook_options =
  rh_attributes :: attributes
  rh_custom :: "string option"
  rh_isEntry :: bool
  rh_ssr :: bool
  rh_scan :: bool

record transform_output =
  out_code :: string
  out_map :: "map_object option"

subsection \<open>Plugins\<close>

text \<open>
  A handler is a function of the hook's arguments. What it does is a program that returns
  a result, throws, or calls \<^verbatim>\<open>this.resolve\<close> and goes on with what that call gave (a
  thrown error, which the handler may catch, or the resolved id). Other methods of the
  plugin context (\<^verbatim>\<open>load\<close>, \<^verbatim>\<open>addWatchFile\<close>, \<^verbatim>\<open>warn\<close>, ...) are not part of the model.
\<close>

datatype 'r hook_prog =
    Return 'r
  | Throw rollup_error
  | ThisResolve string "string option" "this_resolve_options option"
      "rollup_error + resolved_id option \<Rightarrow> 'r hook_prog"

text \<open>A hook is a bare function or an object \<^verbatim>\<open>{handler, order, sequential}\<close>.\<close>

datatype 'h hook = HookFunction 'h | HookObject 'h

text \<open>
  Modelled from the spec: \<^verbatim>\<open>getHookHandler\<close> (plugins/index.ts is not among the sources)
  returns the bare function or the \<^verbatim>\<open>handler\<close> field.
\<close>

fun getHookHandler :: "'h hook \<Rightarrow> 'h" where
  "getHookHandler (HookFunction h) = h"
| "getHookHandler (HookObject h) = h"

type_synonym resolveId_handler =
  "string \<Rightarrow> string \<Rightarrow> resolve_hook_options \<Rightarrow> resolve_id_result hook_prog"

text \<open>A \<^verbatim>\<open>load\<close> handler gets the id and the \<^verbatim>\<open>ssr\<close> flag of its options.\<close>

type_synonym load_handler = "string \<Rightarrow> bool \<Rightarrow> load_result hook_prog"

text \<open>A \<^verbatim>\<open>transform\<close> handler gets the code, the id, and \<^verbatim>\<open>inMap\<close> and \<^verbatim>\<open>ssr\<close> of its options.\<close>

type_synonym transform_handler =
  "string \<Rightarrow> string \<Rightarrow> map_input \<Rightarrow> bool \<Rightarrow> transform_result hook_prog"

text \<open>
  A plugin object. \<open>plugin_ref\<close> stands for the identity of the object, which is what
  membership in a \<^verbatim>\<open>Set<Plugin>\<close> compares.
\<close>

record plugin =
  plugin_ref :: nat
  plugin_name :: string
  resolveId_hook :: "resolveId_handler hook option"
  load_hook :: "load_handler hook option"
  transform_hook :: "transform_handler hook option"

subsection \<open>Contexts\<close>

record plugin_context =
  activePlugin :: "plugin option"
  activeId :: "string option"
  activeCode :: "string option"
  resolveSkips :: "nat set option"
  ctx_scan :: bool

record transform_context = plugin_context +
  filename :: string
  originalCode :: string
  sourcemapChain :: "chain_member list"
  combinedMap :: "map_object option"

definition new_Context :: "plugin option \<Rightarrow> plugin_context" where
  "new_Context initialPlugin =
     \<lparr>activePlugin = initialPlugin, activeId = None, activeCode = None,
      resolveSkips = None, ctx_scan = False\<rparr>"

definition new_TransformContext :: "string \<Rightarrow> string \<Rightarrow> map_input \<Rightarrow> transform_context" where
  "new_TransformContext i code inMap =
     \<lparr>activePlugin = None, activeId = None, activeCode = None,
      resolveSkips = None, ctx_scan = False,
      filename = i, originalCode = code,
      sourcemapChain = (case truthy_map inMap of None \<Rightarrow> [] | Some m \<Rightarrow> [m]),
      combinedMap = None\<rparr>"

subsection \<open>The container\<close>

datatype hook_name = ResolveIdHook | LoadHook | TransformHook

record generate_options =
  includeContent :: bool
  hires :: string
  source :: string

text \<open>
  What the closure of \<^verbatim>\<open>createEnvironmentPluginContainer\<close> holds: the \<^verbatim>\<open>closed\<close> flag, the
  environment's \<^verbatim>\<open>options.dev.recoverable\<close>, the root, the \<^verbatim>\<open>ssr\<close> flag, and the functions
  it imports from outside these sources, taken as parameters: \<^verbatim>\<open>getSortedPlugins\<close> (the
  sorted plugin list of a hook), \<^verbatim>\<open>join\<close> of node:path, \<^verbatim>\<open>isExternalUrl\<close>,
  \<^verbatim>\<open>normalizePath\<close>, \<^verbatim>\<open>cleanUrl\<close> and \<^verbatim>\<open>combineSourcemaps\<close> of the utilities,
  \<^verbatim>\<open>JSON.parse\<close> on a chain member (\<open>Inl\<close> when it throws or yields no object), and
  \<^verbatim>\<open>generateMap\<close> of MagicString. The result of \<^verbatim>\<open>combineSourcemaps\<close> is a new object.
\<close>

record container =
  closed :: bool
  recoverable :: bool
  root :: string
  ssr :: bool
  getSortedPlugins :: "hook_name \<Rightarrow> plugin list"
  join :: "string \<Rightarrow> string \<Rightarrow> string"
  isExternalUrl :: "string \<Rightarrow> bool"
  normalizePath :: "string \<Rightarrow> string"
  cleanUrl :: "string \<Rightarrow> string"
  combineSourcemaps :: "string \<Rightarrow> map_object list \<Rightarrow> source_map"
  JSON_parse :: "string \<Rightarrow> rollup_error + map_object"
  generateMap :: "generate_options \<Rightarrow> string \<Rightarrow> source_map"

section \<open>The source-map chain of a transform context\<close>

definition parse_member :: "container \<Rightarrow> chain_member \<Rightarrow> rollup_error + map_object" where
  "parse_member c m = (case m of ChainString s \<Rightarrow> JSON_parse c s | ChainObject ob \<Rightarrow> Inr ob)"

text \<open>
  The first map of a chain when nothing is combined yet: a map whose \<^verbatim>\<open>sources\<close> is
  \<^verbatim>\<open>[null]\<close> or \<^verbatim>\<open>['']\<close> is rewritten to the file and the original code.
\<close>

definition first_map :: "string \<Rightarrow> string \<Rightarrow> source_map \<Rightarrow> source_map" where
  "first_map fname code sm =
     (case sources sm of
        [s] \<Rightarrow> if \<not> truthy_string s
               then sm\<lparr>sources := [Some fname], sourcesContent := Some [Some code]\<rparr>
               else sm
      | _ \<Rightarrow> sm)"

text \<open>
  The \<^verbatim>\<open>for\<close> loop of \<^verbatim>\<open>_getCombinedSourcemap\<close> over the chain. It carries the local
  \<^verbatim>\<open>combinedMap\<close> and whether the loop has assigned it; both \<^verbatim>\<open>break\<close>s end it.
\<close>

fun combine_chain ::
  "container \<Rightarrow> string \<Rightarrow> string \<Rightarrow> chain_member list \<Rightarrow> map_object option \<Rightarrow> bool \<Rightarrow>
     rollup_error + (map_object option \<times> bool)" where
  "combine_chain c fname code [] cm assigned = Inr (cm, assigned)"
| "combine_chain c fname code (m # ms) cm assigned =
     (case parse_member c m of
        Inl e \<Rightarrow> Inl e
      | Inr (Unversioned mp) \<Rightarrow>
          if mp = Some [] then Inr (Some empty_sentinel, True) else Inr (None, True)
      | Inr (Versioned sm) \<Rightarrow>
          (case cm of
             None \<Rightarrow> combine_chain c fname code ms (Some (Versioned (first_map fname code sm))) True
           | Some prev \<Rightarrow>
               combine_chain c fname code ms
                 (Some (Versioned (combineSourcemaps c (cleanUrl c fname) [Versioned sm, prev])))
                 True))"

text \<open>
  \<^verbatim>\<open>_getCombinedSourcemap\<close>. The test \<^verbatim>\<open>combinedMap !== this.combinedMap\<close> compares
  references: it holds when the loop assigned the local variable, except when it assigned
  \<^verbatim>\<open>null\<close> and the stored map is \<^verbatim>\<open>null\<close> too.
\<close>

definition getCombinedSourcemap_chain ::
  "container \<Rightarrow> transform_context \<Rightarrow> rollup_error + (map_object option \<times> transform_context)" where
  "getCombinedSourcemap_chain c ctx =
     (if combinedMap ctx = Some empty_sentinel
      then Inr (combinedMap ctx, ctx\<lparr>sourcemapChain := []\<rparr>)
      else
        (case combine_chain c (filename ctx) (originalCode ctx) (sourcemapChain ctx)
                (combinedMap ctx) False of
           Inl e \<Rightarrow> Inl e
         | Inr (cm, assigned) \<Rightarrow>
             if assigned \<and> \<not> (cm = None \<and> combinedMap ctx = None)
             then Inr (cm, ctx\<lparr>sourcemapChain := [], combinedMap := cm\<rparr>)
             else Inr (combinedMap ctx, ctx)))"

text \<open>The public \<^verbatim>\<open>getCombinedSourcemap\<close>.\<close>

definition getCombinedSourcemap ::
  "container \<Rightarrow> transform_context \<Rightarrow> rollup_error + (map_object option \<times> transform_context)" where
  "getCombinedSourcemap c ctx =
     (case getCombinedSourcemap_chain c ctx of
        Inl e \<Rightarrow> Inl e
      | Inr (m, ctx') \<Rightarrow>
          if m = None \<or> m = Some empty_sentinel
          then Inr (Some (Versioned
                 (generateMap c
                    \<lparr>includeContent = True, hires = ''boundary'',
                     source = cleanUrl c (filename ctx')\<rparr>
                    (originalCode ctx'))), ctx')
          else Inr (m, ctx'))"

text \<open>
  Merging valid maps from left to right, as the claim words it: each map is combined into
  the running map, the first one being taken as it is (after the rewrite of an empty
  source).
\<close>

definition merge_step :: "container \<Rightarrow> string \<Rightarrow> string \<Rightarrow> map_object option \<Rightarrow> source_map \<Rightarrow> map_object option" where
  "merge_step c fname code acc sm =
     (case acc of
        None \<Rightarrow> Some (Versioned (first_map fname code sm))
      | Some prev \<Rightarrow> Some (Versioned (combineSourcemaps c (cleanUrl c fname) [Versioned sm, prev])))"

definition merged_left_to_right ::
  "container \<Rightarrow> string \<Rightarrow> string \<Rightarrow> map_object option \<Rightarrow> source_map list \<Rightarrow> map_object option" where
  "merged_left_to_right c fname code acc sms = foldl (merge_step c fname code) acc sms"

definition all_versioned :: "container \<Rightarrow> chain_member list \<Rightarrow> source_map list \<Rightarrow> bool" where
  "all_versioned c ms sms = (map (parse_member c) ms = map (\<lambda>sm. Inr (Versioned sm)) sms)"

definition map_mappings :: "map_object \<Rightarrow> string option" where
  "map_mappings m = (case m of Versioned sm \<Rightarrow> Some (mappings sm) | Unversioned mp \<Rightarrow> mp)"

text \<open>Whether a returned map has non-empty mappings, and the identity map of the fallback.\<close>

definition nonempty_mappings :: "map_object option \<Rightarrow> bool" where
  "nonempty_mappings m =
     (case m of None \<Rightarrow> False
      | Some ob \<Rightarrow> (case map_mappings ob of None \<Rightarrow> False | Some mp \<Rightarrow> mp \<noteq> []))"

definition identity_map :: "container \<Rightarrow> transform_context \<Rightarrow> map_object option" where
  "identity_map c ctx =
     Some (Versioned (generateMap c
        \<lparr>includeContent = True, hires = ''boundary'', source = cleanUrl c (filename ctx)\<rparr>
        (originalCode ctx)))"

text \<open>
  A concrete container for the instances below: paths are left as they are, JSON parsing
  fails, combining maps concatenates their mappings, and the generated identity map of a
  non-empty code has the one segment \<^verbatim>\<open>AAAA\<close>.
\<close>

definition ex_generateMap :: "generate_options \<Rightarrow> string \<Rightarrow> source_map" where
  "ex_generateMap opts code =
     \<lparr>version = 3, sources = [Some (source opts)],
      sourcesContent = (if includeContent opts then Some [Some code] else None),
      mappings = (if code = [] then [] else ''AAAA''), names = []\<rparr>"

definition ex_combineSourcemaps :: "string \<Rightarrow> map_object list \<Rightarrow> source_map" where
  "ex_combineSourcemaps f ms =
     \<lparr>version = 3, sources = [Some f], sourcesContent = None,
      mappings = concat (map (\<lambda>m. case map_mappings m of None \<Rightarrow> [] | Some s \<Rightarrow> s) ms),
      names = []\<rparr>"

definition ex_container :: "bool \<Rightarrow> bool \<Rightarrow> (hook_name \<Rightarrow> plugin list) \<Rightarrow> container" where
  "ex_container cl rec plugins =
     \<lparr>closed = cl, recoverable = rec, root = ''/root'', ssr = False,
      getSortedPlugins = plugins,
      join = (\<lambda>a b. a @ ''/'' @ b),
      isExternalUrl = (\<lambda>u. False),
      normalizePath = (\<lambda>p. p),
      cleanUrl = (\<lambda>u. u),
      combineSourcemaps = ex_combineSourcemaps,
      JSON_parse = (\<lambda>s. Inl \<lparr>err_code = None, err_message = ''SyntaxError'', err_plugin = None,
                              err_id = None, err_pluginCode = None\<rparr>),
      generateMap = ex_generateMap\<rparr>"

definition no_plugins :: "hook_name \<Rightarrow> plugin list" where
  "no_plugins h = []"

definition ex_map :: "string \<Rightarrow> source_map" where
  "ex_map mp = \<lparr>version = 3, sources = [Some ''a.js''], sourcesContent = None,
               mappings = mp, names = []\<rparr>"

definition ex_transform_context :: "chain_member list \<Rightarrow> map_object option \<Rightarrow> transform_context" where
  "ex_transform_context chain cm =
     (new_TransformContext ''/f.js'' ''X'' NoMap)\<lparr>sourcemapChain := chain, combinedMap := cm\<rparr>"

section \<open>The plugin container: the hook drivers\<close>

text \<open>
  The drivers \<^verbatim>\<open>resolveId\<close>, \<^verbatim>\<open>load\<close> and \<^verbatim>\<open>transform\<close> of the container, one call at a
  time: the \<^verbatim>\<open>closed\<close> flag does not change during a call. The debug output, the set of
  hook promises that \<^verbatim>\<open>close\<close> waits for, the watch files and the added imports of a
  context are left out.
\<close>

subsection \<open>Module info\<close>

text \<open>
  Modelled from the spec: \<^verbatim>\<open>getModuleById\<close> of the module graph (server/moduleGraph.ts
  is not among the sources) gives the module node of an id, or nothing. It is the lookup in
  \<^verbatim>\<open>idToModuleMap\<close>.
\<close>

definition getModuleById :: "module_graph \<Rightarrow> string \<Rightarrow> (nat \<times> module_node) option" where
  "getModuleById g i =
     (case idToModuleMap g i of
        None \<Rightarrow> None
      | Some r \<Rightarrow> (case nodes g r of None \<Rightarrow> None | Some nd \<Rightarrow> Some (r, nd)))"

text \<open>
  \<^verbatim>\<open>getModuleInfo\<close>: the info object of the node of an id, created on first use; the result
  names the node that holds it. Without a module graph (\<open>None\<close>) there is no info.
\<close>

definition getModuleInfo ::
  "string \<Rightarrow> module_graph option \<Rightarrow> (nat \<times> module_info) option \<times> module_graph option" where
  "getModuleInfo i g =
     (case g of
        None \<Rightarrow> (None, g)
      | Some gr \<Rightarrow>
          (case getModuleById gr i of
             None \<Rightarrow> (None, g)
           | Some (r, nd) \<Rightarrow>
               (case info nd of
                  Some mi \<Rightarrow> (Some (r, mi), g)
                | None \<Rightarrow>
                    let mi = \<lparr>info_id = i,
                               info_meta = (case meta nd of None \<Rightarrow> Map.empty | Some m \<Rightarrow> m)\<rparr>
                    in (Some (r, mi),
                        Some (gr\<lparr>nodes := (nodes gr)(r \<mapsto> nd\<lparr>info := Some mi\<rparr>)\<rparr>)))))"

text \<open>\<^verbatim>\<open>_updateModuleInfo(id, {meta})\<close>: merges a present \<^verbatim>\<open>meta\<close> into the info of the module.\<close>

definition updateModuleInfo ::
  "string \<Rightarrow> meta_object option \<Rightarrow> module_graph option \<Rightarrow> module_graph option" where
  "updateModuleInfo i mt g =
     (case mt of
        None \<Rightarrow> g
      | Some m \<Rightarrow>
          (case getModuleInfo i g of
             (None, g') \<Rightarrow> g'
           | (Some (r, mi), g') \<Rightarrow>
               map_option
                 (\<lambda>gr. gr\<lparr>nodes :=
                     (nodes gr)(r := map_option
                        (\<lambda>nd. nd\<lparr>info := Some (mi\<lparr>info_meta := info_meta mi ++ m\<rparr>)\<rparr>)
                        (nodes gr r))\<rparr>)
                 g'))"

subsection \<open>Running a handler\<close>

text \<open>
  The record of a handler invocation: the plugin whose handler the container called, and
  the invocations made by the container calls that the handler issued through
  \<^verbatim>\<open>this.resolve\<close>. The invocations of one container call are listed in the order in which
  they happened.
\<close>

datatype invocation = Invoked nat "invocation list"

fun invoked_ref :: "invocation \<Rightarrow> nat" where
  "invoked_ref (Invoked r nested) = r"

text \<open>
  What is seen of a container call: the value it returns or the error it throws, and the
  handler invocations it made. The first component is \<open>None\<close> when the call has not
  returned because the nesting of container calls exceeded the bound given to the
  outermost call; the invocations are then those started so far, the last of them not
  finished. A call that works on the module graph also leaves the graph.
\<close>

type_synonym 'a outcome = "(rollup_error + 'a) option \<times> invocation list"

type_synonym 'a graph_outcome =
  "(rollup_error + 'a) option \<times> module_graph option \<times> invocation list"

type_synonym resolver =
  "string \<Rightarrow> string option \<Rightarrow> resolve_options option \<Rightarrow> resolved_id option outcome"

definition after_invocation :: "invocation \<Rightarrow> 'a outcome \<Rightarrow> 'a outcome" where
  "after_invocation e out = (case out of (r, evs) \<Rightarrow> (r, e # evs))"

definition after_invocation_g :: "invocation \<Rightarrow> 'a graph_outcome \<Rightarrow> 'a graph_outcome" where
  "after_invocation_g e out = (case out of (r, g, evs) \<Rightarrow> (r, g, e # evs))"

text \<open>
  \<^verbatim>\<open>Context.resolve\<close>, given the container's \<^verbatim>\<open>resolveId\<close> as \<open>res\<close>. The container never
  returns a bare string, so the normalisation of a string result does not apply.
\<close>

definition Context_resolve ::
  "resolver \<Rightarrow> 'a plugin_context_scheme \<Rightarrow> string \<Rightarrow> string option \<Rightarrow>
     this_resolve_options option \<Rightarrow> resolved_id option outcome" where
  "Context_resolve res ctx i importer options =
     (let skip' =
        (case activePlugin ctx of
           None \<Rightarrow> None
         | Some p \<Rightarrow>
             if Option.bind options skipSelf \<noteq> Some False
             then Some (insert (plugin_ref p)
                          (case resolveSkips ctx of None \<Rightarrow> {} | Some s \<Rightarrow> s))
             else None)
      in res i importer
           (Some \<lparr>ro_attributes = Option.bind options tr_attributes,
                  ro_custom = Option.bind options tr_custom,
                  skip = skip',
                  ro_scan = Some (ctx_scan ctx),
                  ro_isEntry = Some (Option.bind options tr_isEntry = Some True)\<rparr>))"

text \<open>
  A handler runs up to its next \<^verbatim>\<open>await this.resolve(...)\<close> and goes on with what the call
  gives; when the call does not return, neither does the handler.
\<close>

primrec run_hook :: "resolver \<Rightarrow> 'a plugin_context_scheme \<Rightarrow> 'r hook_prog \<Rightarrow> 'r outcome" where
  "run_hook res ctx (Return r) = (Some (Inr r), [])"
| "run_hook res ctx (Throw e) = (Some (Inl e), [])"
| "run_hook res ctx (ThisResolve i importer options k) =
     (case Context_resolve res ctx i importer options of
        (None, evs) \<Rightarrow> (None, evs)
      | (Some out, evs) \<Rightarrow>
          (case run_hook res ctx (k out) of (r, evs') \<Rightarrow> (r, evs @ evs')))"

subsection \<open>resolveId\<close>

definition skipped :: "resolve_options option \<Rightarrow> plugin \<Rightarrow> bool" where
  "skipped options p =
     (case Option.bind options skip of None \<Rightarrow> False | Some s \<Rightarrow> plugin_ref p \<in> s)"

definition hook_options :: "container \<Rightarrow> resolve_options option \<Rightarrow> resolve_hook_options" where
  "hook_options c options =
     \<lparr>rh_attributes = (case Option.bind options ro_attributes of None \<Rightarrow> [] | Some a \<Rightarrow> a),
      rh_custom = Option.bind options ro_custom,
      rh_isEntry = (Option.bind options ro_isEntry = Some True),
      rh_ssr = ssr c,
      rh_scan = (Option.bind options ro_scan = Some True)\<rparr>"

text \<open>
  What the loop takes from a handler's result: nothing from a falsy one (\<^verbatim>\<open>if (!result)
  continue\<close>), the id from a string, the id and the object to merge from an object.
\<close>

fun taken :: "resolve_id_result \<Rightarrow> (string \<times> resolved_id option) option" where
  "taken ResolveNull = None"
| "taken ResolveFalse = None"
| "taken (ResolveString s) = (if s = [] then None else Some (s, None))"
| "taken (ResolveObject r) = Some (res_id r, Some r)"

definition invoke_resolveId ::
  "resolver \<Rightarrow> container \<Rightarrow> plugin_context \<Rightarrow> resolveId_handler hook \<Rightarrow> string \<Rightarrow> string \<Rightarrow>
     resolve_options option \<Rightarrow> resolve_id_result outcome" where
  "invoke_resolveId res c ctx h rawId importer options =
     run_hook res ctx (getHookHandler h rawId importer (hook_options c options))"

text \<open>
  The \<^verbatim>\<open>for\<close> loop of \<^verbatim>\<open>resolveId\<close> over the sorted plugins. Its value is what the
  \<^verbatim>\<open>break\<close> leaves (the id and the object result, if any), or nothing when the list is
  exhausted.
\<close>

fun resolveId_loop ::
  "resolver \<Rightarrow> container \<Rightarrow> plugin_context \<Rightarrow> string \<Rightarrow> string \<Rightarrow> resolve_options option \<Rightarrow>
     plugin list \<Rightarrow> (string \<times> resolved_id option) option outcome" where
  "resolveId_loop res c ctx rawId importer options [] = (Some (Inr None), [])"
| "resolveId_loop res c ctx rawId importer options (p # ps) =
     (if closed c \<and> recoverable c then (Some (Inl closedServerError), [])
      else
        (case resolveId_hook p of
           None \<Rightarrow> resolveId_loop res c ctx rawId importer options ps
         | Some h \<Rightarrow>
             if skipped options p then resolveId_loop res c ctx rawId importer options ps
             else
               (case invoke_resolveId res c (ctx\<lparr>activePlugin := Some p\<rparr>) h rawId importer options of
                  (None, evs) \<Rightarrow> (None, [Invoked (plugin_ref p) evs])
                | (Some (Inl e), evs) \<Rightarrow> (Some (Inl e), [Invoked (plugin_ref p) evs])
                | (Some (Inr result), evs) \<Rightarrow>
                    (case taken result of
                       None \<Rightarrow>
                         after_invocation (Invoked (plugin_ref p) evs)
                           (resolveId_loop res c (ctx\<lparr>activePlugin := Some p\<rparr>) rawId importer
                              options ps)
                     | Some found \<Rightarrow>
                         (Some (Inr (Some found)), [Invoked (plugin_ref p) evs])))))"

text \<open>The end of \<^verbatim>\<open>resolveId\<close>: a truthy id is normalised and returned in the result object.\<close>

definition finish_resolve ::
  "container \<Rightarrow> (string \<times> resolved_id option) option \<Rightarrow> resolved_id option" where
  "finish_resolve c found =
     (case found of
        None \<Rightarrow> None
      | Some (i, ob) \<Rightarrow>
          if i \<noteq> []
          then Some ((case ob of
                        None \<Rightarrow> \<lparr>res_id = i, res_external = None, res_meta = None\<rparr>
                      | Some r \<Rightarrow> r)
                     \<lparr>res_id := (if isExternalUrl c i then i else normalizePath c i)\<rparr>)
          else None)"

text \<open>
  The start of \<^verbatim>\<open>resolveId\<close>: the default of the importer, and the fresh context with the
  skip set and the scan flag of the options.
\<close>

definition default_importer :: "container \<Rightarrow> string option \<Rightarrow> string" where
  "default_importer c importer =
     (case importer of None \<Rightarrow> join c (root c) ''index.html'' | Some im \<Rightarrow> im)"

definition resolveId_context :: "resolve_options option \<Rightarrow> plugin_context" where
  "resolveId_context options =
     (new_Context None)
       \<lparr>resolveSkips := Option.bind options skip,
        ctx_scan := (Option.bind options ro_scan = Some True)\<rparr>"

definition resolveId_body :: "resolver \<Rightarrow> container \<Rightarrow> resolver" where
  "resolveId_body res c rawId importer options =
     (case resolveId_loop res c (resolveId_context options) rawId (default_importer c importer)
             options (getSortedPlugins c ResolveIdHook) of
        (None, evs) \<Rightarrow> (None, evs)
      | (Some (Inl e), evs) \<Rightarrow> (Some (Inl e), evs)
      | (Some (Inr found), evs) \<Rightarrow> (Some (Inr (finish_resolve c found)), evs))"

text \<open>
  The container's \<^verbatim>\<open>resolveId\<close>. A handler may call \<^verbatim>\<open>this.resolve\<close>, which calls
  \<^verbatim>\<open>resolveId\<close> again, without bound; the first argument bounds how deep such calls may
  nest below this one. A call beyond the bound is not followed: it does not return, and
  the invocations it would make are not listed.
\<close>

primrec resolveId :: "nat \<Rightarrow> container \<Rightarrow> resolver" where
  "resolveId 0 c = resolveId_body (\<lambda>i importer options. (None, [])) c"
| "resolveId (Suc n) c = resolveId_body (resolveId n c) c"

subsection \<open>load\<close>

definition invoke_load ::
  "resolver \<Rightarrow> container \<Rightarrow> plugin_context \<Rightarrow> load_handler hook \<Rightarrow> string \<Rightarrow> load_result outcome" where
  "invoke_load res c ctx h i = run_hook res ctx (getHookHandler h i (ssr c))"

fun load_loop ::
  "resolver \<Rightarrow> container \<Rightarrow> plugin_context \<Rightarrow> string \<Rightarrow> module_graph option \<Rightarrow> plugin list \<Rightarrow>
     load_result graph_outcome" where
  "load_loop res c ctx i g [] = (Some (Inr LoadNull), g, [])"
| "load_loop res c ctx i g (p # ps) =
     (if closed c \<and> recoverable c then (Some (Inl closedServerError), g, [])
      else
        (case load_hook p of
           None \<Rightarrow> load_loop res c ctx i g ps
         | Some h \<Rightarrow>
             (case invoke_load res c (ctx\<lparr>activePlugin := Some p\<rparr>) h i of
                (None, evs) \<Rightarrow> (None, g, [Invoked (plugin_ref p) evs])
              | (Some (Inl e), evs) \<Rightarrow> (Some (Inl e), g, [Invoked (plugin_ref p) evs])
              | (Some (Inr result), evs) \<Rightarrow>
                  (case result of
                     LoadNull \<Rightarrow>
                       after_invocation_g (Invoked (plugin_ref p) evs)
                         (load_loop res c (ctx\<lparr>activePlugin := Some p\<rparr>) i g ps)
                   | LoadString s \<Rightarrow> (Some (Inr result), g, [Invoked (plugin_ref p) evs])
                   | LoadObject r \<Rightarrow>
                       (Some (Inr result), updateModuleInfo i (sd_meta r) g,
                        [Invoked (plugin_ref p) evs])))))"

definition load :: "nat \<Rightarrow> container \<Rightarrow> string \<Rightarrow> module_graph option \<Rightarrow> load_result graph_outcome" where
  "load n c i g =
     load_loop (resolveId n c) c (new_Context None) i g (getSortedPlugins c LoadHook)"

subsection \<open>transform\<close>

text \<open>
  \<^verbatim>\<open>formatError\<close>, for the properties \<^verbatim>\<open>plugin\<close>, \<^verbatim>\<open>id\<close> and \<^verbatim>\<open>pluginCode\<close> of the error.
\<close>

definition formatError :: "rollup_error \<Rightarrow> 'a plugin_context_scheme \<Rightarrow> rollup_error" where
  "formatError err ctx =
     (if truthy_string (err_pluginCode err) then err
      else
        let err1 = (case activePlugin ctx of
                      None \<Rightarrow> err
                    | Some p \<Rightarrow> err\<lparr>err_plugin := Some (plugin_name p)\<rparr>);
            err2 = (if truthy_string (activeId ctx) \<and> \<not> truthy_string (err_id err1)
                    then err1\<lparr>err_id := activeId ctx\<rparr> else err1)
        in if truthy_string (activeCode ctx) then err2\<lparr>err_pluginCode := activeCode ctx\<rparr>
           else err2)"

definition invoke_transform ::
  "resolver \<Rightarrow> container \<Rightarrow> transform_context \<Rightarrow> transform_handler hook \<Rightarrow> string \<Rightarrow> string \<Rightarrow>
     map_input \<Rightarrow> transform_result outcome" where
  "invoke_transform res c ctx h code i inMap = run_hook res ctx (getHookHandler h code i inMap (ssr c))"

text \<open>
  What the loop of \<^verbatim>\<open>transform\<close> does with an object result, to the running code and to
  the context.
\<close>

definition apply_object_result ::
  "source_description \<Rightarrow> string \<Rightarrow> transform_context \<Rightarrow> string \<times> transform_context" where
  "apply_object_result r code ctx =
     (case sd_code r of
        None \<Rightarrow> (code, ctx)
      | Some cd \<Rightarrow>
          (cd, (case truthy_map (sd_map r) of
                  None \<Rightarrow> ctx
                | Some m \<Rightarrow> ctx\<lparr>sourcemapChain := sourcemapChain ctx @ [m]\<rparr>)))"

fun transform_loop ::
  "resolver \<Rightarrow> container \<Rightarrow> string \<Rightarrow> map_input \<Rightarrow> plugin list \<Rightarrow> string \<Rightarrow> transform_context \<Rightarrow>
     module_graph option \<Rightarrow> (string \<times> transform_context) graph_outcome" where
  "transform_loop res c i inMap [] code ctx g = (Some (Inr (code, ctx)), g, [])"
| "transform_loop res c i inMap (p # ps) code ctx g =
     (if closed c \<and> recoverable c then (Some (Inl closedServerError), g, [])
      else
        (case transform_hook p of
           None \<Rightarrow> transform_loop res c i inMap ps code ctx g
         | Some h \<Rightarrow>
             let ctx' = ctx\<lparr>activePlugin := Some p, activeId := Some i, activeCode := Some code\<rparr>
             in (case invoke_transform res c ctx' h code i inMap of
                   (None, evs) \<Rightarrow> (None, g, [Invoked (plugin_ref p) evs])
                 | (Some (Inl e), evs) \<Rightarrow>
                     (Some (Inl (formatError e ctx')), g, [Invoked (plugin_ref p) evs])
                 | (Some (Inr result), evs) \<Rightarrow>
                     after_invocation_g (Invoked (plugin_ref p) evs)
                       (case result of
                          TransformNull \<Rightarrow> transform_loop res c i inMap ps code ctx' g
                        | TransformString s \<Rightarrow>
                            if s = [] then transform_loop res c i inMap ps code ctx' g
                            else transform_loop res c i inMap ps s ctx' g
                        | TransformObject r \<Rightarrow>
                            transform_loop res c i inMap ps
                              (fst (apply_object_result r code ctx'))
                              (snd (apply_object_result r code ctx'))
                              (updateModuleInfo i (sd_meta r) g)))))"

definition transform ::
  "nat \<Rightarrow> container \<Rightarrow> string \<Rightarrow> string \<Rightarrow> map_input \<Rightarrow> module_graph option \<Rightarrow>
     transform_output graph_outcome" where
  "transform n c code i inMap g =
     (case transform_loop (resolveId n c) c i inMap (getSortedPlugins c TransformHook) code
             (new_TransformContext i code inMap) g of
        (None, g', evs) \<Rightarrow> (None, g', evs)
      | (Some (Inl e), g', evs) \<Rightarrow> (Some (Inl e), g', evs)
      | (Some (Inr (code', ctx')), g', evs) \<Rightarrow>
          (case getCombinedSourcemap_chain c ctx' of
             Inl e \<Rightarrow> (Some (Inl e), g', evs)
           | Inr (m, ctx'') \<Rightarrow> (Some (Inr \<lparr>out_code = code', out_map = m\<rparr>), g', evs)))"

subsection \<open>Notions used in the statements about the hook drivers\<close>

text \<open>
  The \<^verbatim>\<open>resolveId\<close> that a handler reaches through \<^verbatim>\<open>this.resolve\<close> from inside the
  container call \<open>resolveId n c\<close>.
\<close>

definition nested :: "nat \<Rightarrow> container \<Rightarrow> resolver" where
  "nested n c = (case n of 0 \<Rightarrow> (\<lambda>i importer options. (None, [])) | Suc m \<Rightarrow> resolveId m c)"

text \<open>
  In a call \<open>resolveId n c rawId importer options\<close>: a plugin is eligible when it has a
  \<^verbatim>\<open>resolveId\<close> hook and is not in the skip set; its answer is what its handler does when
  the loop invokes it; it passes when it is not eligible or answers with a falsy result.
\<close>

definition resolveId_eligible :: "resolve_options option \<Rightarrow> plugin \<Rightarrow> bool" where
  "resolveId_eligible options p = (resolveId_hook p \<noteq> None \<and> \<not> skipped options p)"

definition resolveId_answer ::
  "nat \<Rightarrow> container \<Rightarrow> string \<Rightarrow> string option \<Rightarrow> resolve_options option \<Rightarrow> plugin \<Rightarrow>
     resolve_id_result outcome" where
  "resolveId_answer n c rawId importer options p =
     (case resolveId_hook p of
        None \<Rightarrow> (None, [])
      | Some h \<Rightarrow>
          invoke_resolveId (nested n c) c ((resolveId_context options)\<lparr>activePlugin := Some p\<rparr>)
            h rawId (default_importer c importer) options)"

definition resolveId_passes ::
  "nat \<Rightarrow> container \<Rightarrow> string \<Rightarrow> string option \<Rightarrow> resolve_options option \<Rightarrow> plugin \<Rightarrow> bool" where
  "resolveId_passes n c rawId importer options p =
     (if resolveId_eligible options p
      then (case fst (resolveId_answer n c rawId importer options p) of
              Some (Inr r) \<Rightarrow> taken r = None
            | _ \<Rightarrow> False)
      else True)"

text \<open>The same for a call \<open>load n c i g\<close>; a plugin passes with a \<^verbatim>\<open>null\<close> result.\<close>

definition load_answer :: "nat \<Rightarrow> container \<Rightarrow> string \<Rightarrow> plugin \<Rightarrow> load_result outcome" where
  "load_answer n c i p =
     (case load_hook p of
        None \<Rightarrow> (None, [])
      | Some h \<Rightarrow> invoke_load (resolveId n c) c ((new_Context None)\<lparr>activePlugin := Some p\<rparr>) h i)"

definition load_passes :: "nat \<Rightarrow> container \<Rightarrow> string \<Rightarrow> plugin \<Rightarrow> bool" where
  "load_passes n c i p =
     (if load_hook p \<noteq> None
      then (case fst (load_answer n c i p) of Some (Inr r) \<Rightarrow> r = LoadNull | _ \<Rightarrow> False)
      else True)"

text \<open>The options that \<^verbatim>\<open>this.resolve\<close> passes on to \<^verbatim>\<open>resolveId\<close>, for a given skip set.\<close>

definition passed_on ::
  "'a plugin_context_scheme \<Rightarrow> this_resolve_options option \<Rightarrow> nat set option \<Rightarrow> resolve_options" where
  "passed_on ctx options sk =
     \<lparr>ro_attributes = Option.bind options tr_attributes,
      ro_custom = Option.bind options tr_custom,
      skip = sk,
      ro_scan = Some (ctx_scan ctx),
      ro_isEntry = Some (Option.bind options tr_isEntry = Some True)\<rparr>"

definition accumulated_skips :: "'a plugin_context_scheme \<Rightarrow> nat set" where
  "accumulated_skips ctx = (case resolveSkips ctx of None \<Rightarrow> {} | Some s \<Rightarrow> s)"

text \<open>Putting earlier invocations in front of those of an outcome.\<close>

definition preceded_by :: "invocation list \<Rightarrow> 'a outcome \<Rightarrow> 'a outcome" where
  "preceded_by evs0 out = (case out of (r, evs) \<Rightarrow> (r, evs0 @ evs))"

definition preceded_by_g :: "invocation list \<Rightarrow> 'a graph_outcome \<Rightarrow> 'a graph_outcome" where
  "preceded_by_g evs0 out = (case out of (r, g, evs) \<Rightarrow> (r, g, evs0 @ evs))"

definition load_eligible :: "plugin \<Rightarrow> bool" where
  "load_eligible p = (load_hook p \<noteq> None)"

text \<open>What \<^verbatim>\<open>load\<close> leaves in the module graph when it returns the result \<open>r\<close>.\<close>

definition graph_after_load :: "string \<Rightarrow> load_result \<Rightarrow> module_graph option \<Rightarrow> module_graph option" where
  "graph_after_load i r g =
     (case r of LoadObject d \<Rightarrow> updateModuleInfo i (sd_meta d) g | _ \<Rightarrow> g)"

text \<open>The container with the plugins of a skip set taken out of its sorted lists.\<close>

definition without_skipped :: "nat set \<Rightarrow> container \<Rightarrow> container" where
  "without_skipped S c =
     c\<lparr>getSortedPlugins := (\<lambda>h. filter (\<lambda>q. plugin_ref q \<notin> S) (getSortedPlugins c h))\<rparr>"

subsection \<open>Concrete plugins and containers\<close>

text \<open>Concrete plugins for the instances below.\<close>

definition plain_plugin :: "nat \<Rightarrow> string \<Rightarrow> plugin" where
  "plain_plugin r n =
     \<lparr>plugin_ref = r, plugin_name = n, resolveId_hook = None, load_hook = None,
      transform_hook = None\<rparr>"

definition resolving_plugin :: "nat \<Rightarrow> string \<Rightarrow> resolveId_handler \<Rightarrow> plugin" where
  "resolving_plugin r n h = (plain_plugin r n)\<lparr>resolveId_hook := Some (HookFunction h)\<rparr>"

definition transforming_plugin :: "nat \<Rightarrow> string \<Rightarrow> transform_handler \<Rightarrow> plugin" where
  "transforming_plugin r n h = (plain_plugin r n)\<lparr>transform_hook := Some (HookObject h)\<rparr>"

definition sorted_as :: "plugin list \<Rightarrow> hook_name \<Rightarrow> plugin list" where
  "sorted_as ps h = ps"

text \<open>A plugin whose \<^verbatim>\<open>resolveId\<close> always returns the given result.\<close>

definition answering :: "nat \<Rightarrow> string \<Rightarrow> resolve_id_result \<Rightarrow> plugin" where
  "answering r n res = resolving_plugin r n (\<lambda>rawId importer options. Return res)"

text \<open>The options \<^verbatim>\<open>{skipSelf}\<close> of a \<^verbatim>\<open>this.resolve\<close> call.\<close>

definition only_skipSelf :: "bool option \<Rightarrow> this_resolve_options option" where
  "only_skipSelf b =
     Some \<lparr>tr_attributes = None, tr_custom = None, tr_isEntry = None, skipSelf = b\<rparr>"

text \<open>A plugin that resolves the one id \<^verbatim>\<open>x\<close>, to \<^verbatim>\<open>/abs/x.js\<close>.\<close>

definition resolves_x :: plugin where
  "resolves_x =
     resolving_plugin 1 ''resolves-x''
       (\<lambda>rawId importer options.
          Return (if rawId = ''x'' then ResolveString ''/abs/x.js'' else ResolveNull))"

text \<open>
  A plugin that, asked for \<^verbatim>\<open>main\<close>, calls \<^verbatim>\<open>this.resolve('x', undefined, {skipSelf})\<close> and
  returns what it gets; it resolves nothing else.
\<close>

definition asks_for_x :: "bool option \<Rightarrow> plugin" where
  "asks_for_x skipSelf_opt =
     resolving_plugin 2 ''asks-for-x''
       (\<lambda>rawId importer options.
          if rawId = ''main''
          then ThisResolve ''x'' None (only_skipSelf skipSelf_opt)
                 (\<lambda>out. case out of
                           Inl e \<Rightarrow> Throw e
                         | Inr None \<Rightarrow> Return ResolveNull
                         | Inr (Some r) \<Rightarrow> Return (ResolveObject r))
          else Return ResolveNull)"

text \<open>
  A plugin that answers every request by asking \<^verbatim>\<open>this.resolve\<close> for the same id with
  the given \<^verbatim>\<open>skipSelf\<close>, and resolves it to \<^verbatim>\<open>/self\<close> when nobody else does.
\<close>

definition asks_again :: "bool option \<Rightarrow> plugin" where
  "asks_again skipSelf_opt =
     resolving_plugin 3 ''asks-again''
       (\<lambda>rawId importer options.
          ThisResolve rawId None (only_skipSelf skipSelf_opt)
            (\<lambda>out. case out of
                      Inl e \<Rightarrow> Throw e
                    | Inr None \<Rightarrow> Return (ResolveString ''/self'')
                    | Inr (Some r) \<Rightarrow> Return (ResolveObject r)))"

text \<open>The context in which the container invokes the \<^verbatim>\<open>resolveId\<close> handler of a plugin.\<close>

definition invoking :: "plugin \<Rightarrow> plugin_context" where
  "invoking p = (resolveId_context None)\<lparr>activePlugin := Some p\<rparr>"

definition resolved_x :: "resolved_id option" where
  "resolved_x = Some \<lparr>res_id = ''/abs/x.js'', res_external = None, res_meta = None\<rparr>"

text \<open>A plugin with the three hooks, for the instances below.\<close>

definition echo_plugin :: plugin where
  "echo_plugin =
     \<lparr>plugin_ref = 7, plugin_name = ''echo'',
      resolveId_hook = Some (HookFunction (\<lambda>rawId importer options.
                          Return (ResolveString (''/abs/'' @ rawId)))),
      load_hook = Some (HookFunction (\<lambda>i s. Return (LoadString ''code''))),
      transform_hook = Some (HookFunction (\<lambda>code i inMap s.
                          Return (TransformString (code @ '';''))))\<rparr>"

text \<open>The three plugins of a short-circuit scenario, and two lists that start with a falsy answer.\<close>

definition scenario_A :: "plugin list" where
  "scenario_A =
     [answering 1 ''P1'' ResolveNull,
      answering 2 ''P2'' (ResolveString ''/abs/a.js''),
      answering 3 ''P3'' (ResolveString ''/abs/b.js'')]"

definition false_then_b :: "plugin list" where
  "false_then_b =
     [answering 1 ''P1'' ResolveFalse, answering 2 ''P2'' (ResolveString ''/abs/b.js'')]"

definition empty_then_b :: "plugin list" where
  "empty_then_b =
     [answering 1 ''P1'' (ResolveString []), answering 2 ''P2'' (ResolveString ''/abs/b.js'')]"

text \<open>
  A plugin whose \<^verbatim>\<open>load\<close> always returns the given result, and a list whose first plugin
  loads the empty string.
\<close>

definition loading :: "nat \<Rightarrow> string \<Rightarrow> load_result \<Rightarrow> plugin" where
  "loading r n res = (plain_plugin r n)\<lparr>load_hook := Some (HookFunction (\<lambda>i s. Return res))\<rparr>"

definition empty_load_then_b :: "plugin list" where
  "empty_load_then_b =
     [loading 1 ''P1'' (LoadString []), loading 2 ''P2'' (LoadString ''b'')]"

text \<open>
  Two transform plugins: one returns an object with a map and no code, the other an object
  with a map, the code \<^verbatim>\<open>Y\<close> and a \<^verbatim>\<open>meta\<close> entry. And a module graph with the module
  \<^verbatim>\<open>/f.js\<close>.
\<close>

definition map_only :: plugin where
  "map_only =
     transforming_plugin 4 ''map-only''
       (\<lambda>code i inMap s.
          Return (TransformObject
            \<lparr>sd_code = None, sd_map = MapObject (Versioned (ex_map ''AAAA'')), sd_meta = None\<rparr>))"

definition code_and_map :: plugin where
  "code_and_map =
     transforming_plugin 5 ''code-and-map''
       (\<lambda>code i inMap s.
          Return (TransformObject
            \<lparr>sd_code = Some ''Y'', sd_map = MapObject (Versioned (ex_map ''AAAA'')),
             sd_meta = Some [''k'' \<mapsto> ''v'']\<rparr>))"

definition ex_graph :: module_graph where
  "ex_graph =
     \<lparr>urlToModuleMap = [''/f.js'' \<mapsto> 0], idToModuleMap = [''/f.js'' \<mapsto> 0],
      nodes = [0 \<mapsto> ex_node]\<rparr>"

section \<open>Properties of the crawl-end finder\<close>

lemmas finder_defs = cancel_def callOnCrawlEnd_def registerRequestProcessing_def clearTimeout_def
  setTimeout_def checkIfCrawlEndAfterTimeout_def callOnCrawlEndWhenIdle_def markIdAsDone_def
  waitForRequestsIdle_def

lemma finder_run_append: "finder_run s (xs @ ys) = finder_run (finder_run s xs) ys"
  by (simp add: finder_run_def)

lemma finder_run_Cons: "finder_run s (e # evs) = finder_run (finder_step s e) evs"
  by (simp add: finder_run_def)

lemma finder_run_Nil: "finder_run s [] = s"
  by (simp add: finder_run_def)

lemma once_inv_step: "once_inv s \<Longrightarrow> once_inv (finder_step s e)"
  by (cases e) (auto simp: once_inv_def finder_defs split: option.splits)

lemma once_inv_run: "once_inv s \<Longrightarrow> once_inv (finder_run s evs)"
  by (induction evs arbitrary: s) (simp_all add: finder_run_Nil finder_run_Cons once_inv_step)

text \<open>
  C7. Whatever sequence of registrations, settled requests, idle waits, cancellations and
  timer firings a finder goes through from its creation, the \<^verbatim>\<open>onCrawlEnd\<close> callback has
  been invoked at most once, and it has been invoked exactly when \<^verbatim>\<open>crawlEndCalled\<close> is
  set.
\<close>

theorem crawl_end_at_most_once:
  "onCrawlEnd_calls (finder_run setupOnCrawlEnd evs) \<le> 1 \<and>
   (crawlEndCalled (finder_run setupOnCrawlEnd evs) =
      (onCrawlEnd_calls (finder_run setupOnCrawlEnd evs) = 1))"
proof -
  have "once_inv setupOnCrawlEnd" by (simp add: once_inv_def setupOnCrawlEnd_def)
  then have "once_inv (finder_run setupOnCrawlEnd evs)" by (rule once_inv_run)
  then show ?thesis by (simp add: once_inv_def split: if_splits)
qed

text \<open>
  An instance of C7: two ids are registered and settle, the timer fires and the callback
  runs; a third id registered and settled afterwards makes a second timer fire, and the
  count stays at one.
\<close>

theorem crawl_end_at_most_once_witness:
  "onCrawlEnd_calls
     (finder_run setupOnCrawlEnd
        [Register ''a'', Register ''b'', DoneSettled ''a'', DoneSettled ''b'', TimerFired 0,
         Register ''c'', DoneSettled ''c'', TimerFired 1]) = 1"
proof -
  have "crawlEndCalled
     (finder_run setupOnCrawlEnd
        [Register ''a'', Register ''b'', DoneSettled ''a'', DoneSettled ''b'', TimerFired 0,
         Register ''c'', DoneSettled ''c'', TimerFired 1])"
    by (simp add: finder_run_def finder_defs setupOnCrawlEnd_def insert_Diff_if)
  with crawl_end_at_most_once
    [of "[Register ''a'', Register ''b'', DoneSettled ''a'', DoneSettled ''b'', TimerFired 0,
          Register ''c'', DoneSettled ''c'', TimerFired 1]"]
  show ?thesis by simp
qed

lemma cancelled_step:
  "cancelled s \<Longrightarrow> cancelled (finder_step s e) \<and>
     onCrawlEnd_calls (finder_step s e) = onCrawlEnd_calls s \<and>
     promise_resolved (finder_step s e) = promise_resolved s"
  by (cases e) (auto simp: finder_defs split: option.splits)

lemma cancelled_run:
  "cancelled s \<Longrightarrow> cancelled (finder_run s evs) \<and>
     onCrawlEnd_calls (finder_run s evs) = onCrawlEnd_calls s \<and>
     promise_resolved (finder_run s evs) = promise_resolved s"
proof (induction evs arbitrary: s)
  case Nil
  then show ?case by (simp add: finder_run_Nil)
next
  case (Cons e evs)
  from cancelled_step [OF Cons.prems, of e] Cons.IH [of "finder_step s e"]
  show ?case by (simp add: finder_run_Cons)
qed

text \<open>
  C8, as the code has it. After \<^verbatim>\<open>cancel()\<close>, whatever happens to the finder, the
  \<^verbatim>\<open>onCrawlEnd\<close> callback is not invoked again and the deferred keeps the state it had:
  a later timer firing returns before \<^verbatim>\<open>callOnCrawlEnd\<close>, so it neither calls the callback
  nor resolves the deferred.
\<close>

theorem cancel_suppresses_callback_and_resolution:
  "onCrawlEnd_calls (finder_run (cancel s) evs) = onCrawlEnd_calls s \<and>
   promise_resolved (finder_run (cancel s) evs) = promise_resolved s \<and>
   cancelled (finder_run (cancel s) evs)"
  using cancelled_run [of "cancel s" evs] by (simp add: cancel_def)

text \<open>
  C8 as stated fails. One id is registered and settles, which schedules the timer. Without
  a cancel the timer firing calls the callback and resolves the deferred; with a cancel
  before the same firing, the deferred is still unresolved after it.
\<close>

theorem cancel_deferred_counterexample:
  "promise_resolved
     (finder_run setupOnCrawlEnd [Register ''a'', DoneSettled ''a'', TimerFired 0]) \<and>
   onCrawlEnd_calls
     (finder_run setupOnCrawlEnd [Register ''a'', DoneSettled ''a'', TimerFired 0]) = 1 \<and>
   \<not> promise_resolved
       (finder_run setupOnCrawlEnd [Register ''a'', DoneSettled ''a'', Cancel, TimerFired 0])"
  by (simp add: finder_run_def finder_defs setupOnCrawlEnd_def)

lemma ignored_step:
  "ignored_inv i s \<Longrightarrow>
     ignored_inv i (finder_step s e) \<and>
     count_list (done_calls (finder_step s e)) i = count_list (done_calls s) i"
  by (cases e) (auto simp: ignored_inv_def finder_defs split: option.splits)

lemma ignored_run:
  "ignored_inv i s \<Longrightarrow>
     ignored_inv i (finder_run s evs) \<and>
     count_list (done_calls (finder_run s evs)) i = count_list (done_calls s) i"
proof (induction evs arbitrary: s)
  case Nil
  then show ?case by (simp add: finder_run_Nil)
next
  case (Cons e evs)
  from ignored_step [OF Cons.prems, of e] Cons.IH [of "finder_step s e"]
  show ?case by (simp add: finder_run_Cons)
qed

lemma never_registered_step:
  "never_registered i s \<Longrightarrow> Register i \<noteq> e \<Longrightarrow> never_registered i (finder_step s e)"
  by (cases e) (auto simp: never_registered_def finder_defs split: option.splits)

lemma never_registered_run:
  "never_registered i s \<Longrightarrow> Register i \<notin> set evs \<Longrightarrow> never_registered i (finder_run s evs)"
proof (induction evs arbitrary: s)
  case Nil
  then show ?case by (simp add: finder_run_Nil)
next
  case (Cons e evs)
  then show ?case by (auto simp: finder_run_Cons intro: never_registered_step)
qed

text \<open>
  C10, as the code has it. Let \<open>i\<close> be a non-empty id that was not registered in the
  events \<open>pre\<close> since the finder was created. After \<^verbatim>\<open>waitForRequestsIdle(i)\<close>, and
  whatever happens later (\<open>post\<close>, which may register \<open>i\<close> any number of times), \<open>i\<close>
  is in the seen set, is not in the registered set, its \<^verbatim>\<open>done\<close> was never invoked, and
  one more \<^verbatim>\<open>registerRequestProcessing(i, done)\<close> changes nothing.
\<close>

theorem ignored_id_never_registered:
  assumes "i \<noteq> []" and "Register i \<notin> set pre"
  shows "i \<in> seenIds (finder_run setupOnCrawlEnd (pre @ WaitIdle (Some i) # post)) \<and>
         i \<notin> registeredIds (finder_run setupOnCrawlEnd (pre @ WaitIdle (Some i) # post)) \<and>
         i \<notin> set (done_calls (finder_run setupOnCrawlEnd (pre @ WaitIdle (Some i) # post))) \<and>
         registerRequestProcessing i (finder_run setupOnCrawlEnd (pre @ WaitIdle (Some i) # post)) =
           finder_run setupOnCrawlEnd (pre @ WaitIdle (Some i) # post)"
proof -
  let ?s = "finder_run setupOnCrawlEnd pre"
  let ?w = "finder_step ?s (WaitIdle (Some i))"
  have "never_registered i setupOnCrawlEnd"
    by (simp add: never_registered_def setupOnCrawlEnd_def)
  then have f: "never_registered i ?s" using assms(2) by (rule never_registered_run)
  then have w: "waitForRequestsIdle (Some i) ?s = ?s\<lparr>seenIds := insert i (seenIds ?s)\<rparr>"
    using assms(1) by (simp add: never_registered_def waitForRequestsIdle_def markIdAsDone_def)
  have inv: "ignored_inv i ?w" and d: "count_list (done_calls ?w) i = 0"
    using f by (simp_all add: w ignored_inv_def never_registered_def)
  have r: "finder_run setupOnCrawlEnd (pre @ WaitIdle (Some i) # post) = finder_run ?w post"
    by (simp add: finder_run_append finder_run_Cons)
  from ignored_run [OF inv, of post] d
  show ?thesis
    by (simp add: r ignored_inv_def registerRequestProcessing_def count_list_0_iff)
qed

text \<open>
  An instance of C10: another id is in flight, \<^verbatim>\<open>/a.js\<close> is passed as the ignored id and
  registered twice afterwards.
\<close>

theorem ignored_id_never_registered_witness:
  "''/a.js'' \<noteq> [] \<and> Register ''/a.js'' \<notin> set [Register ''/b.js''] \<and>
   ''/a.js'' \<in> seenIds (finder_run setupOnCrawlEnd
       ([Register ''/b.js''] @ WaitIdle (Some ''/a.js'') # [Register ''/a.js'', Register ''/a.js''])) \<and>
   ''/a.js'' \<notin> registeredIds (finder_run setupOnCrawlEnd
       ([Register ''/b.js''] @ WaitIdle (Some ''/a.js'') # [Register ''/a.js'', Register ''/a.js''])) \<and>
   ''/a.js'' \<notin> set (done_calls (finder_run setupOnCrawlEnd
       ([Register ''/b.js''] @ WaitIdle (Some ''/a.js'') # [Register ''/a.js'', Register ''/a.js''])))"
proof -
  have h1: "''/a.js'' \<noteq> []" by simp
  have h2: "Register ''/a.js'' \<notin> set [Register ''/b.js'']" by simp
  from ignored_id_never_registered [OF h1 h2, of "[Register ''/a.js'', Register ''/a.js'']"] h1 h2
  show ?thesis by blast
qed

text \<open>
  C10 as stated fails for the empty id: \<^verbatim>\<open>waitForRequestsIdle('')\<close> does not add it to
  the seen set, and a later registration registers it and invokes its \<^verbatim>\<open>done\<close>.
\<close>

theorem ignored_id_counterexample:
  "[] \<notin> seenIds (finder_run setupOnCrawlEnd [WaitIdle (Some [])]) \<and>
   [] \<in> registeredIds (finder_run setupOnCrawlEnd [WaitIdle (Some []), Register []]) \<and>
   done_calls (finder_run setupOnCrawlEnd [WaitIdle (Some []), Register []]) = [[]]"
  by (simp add: finder_run_def finder_defs setupOnCrawlEnd_def)

section \<open>Properties of the hot-update invalidation\<close>












section \<open>Properties of the source-map chain\<close>

lemma all_versioned_Nil: "all_versioned c [] sms = (sms = [])"
  by (auto simp: all_versioned_def)

lemma all_versioned_Cons:
  "all_versioned c (m # ms) sms =
     (\<exists>sm sms'. sms = sm # sms' \<and> parse_member c m = Inr (Versioned sm) \<and> all_versioned c ms sms')"
  by (cases sms) (auto simp: all_versioned_def)

lemma combine_chain_versioned_prefix:
  "all_versioned c pre sms \<Longrightarrow>
     combine_chain c fname code (pre @ rest) cm assigned =
     combine_chain c fname code rest (merged_left_to_right c fname code cm sms)
       (assigned \<or> pre \<noteq> [])"
proof (induction pre arbitrary: sms cm assigned)
  case Nil
  then show ?case by (simp add: all_versioned_Nil merged_left_to_right_def)
next
  case (Cons m pre)
  then obtain sm sms' where s: "sms = sm # sms'" and p: "parse_member c m = Inr (Versioned sm)"
    and a: "all_versioned c pre sms'"
    by (auto simp: all_versioned_Cons)
  show ?case
    using Cons.IH [OF a] p
    by (cases cm) (simp_all add: s merged_left_to_right_def merge_step_def)
qed

lemma combine_chain_unversioned:
  "parse_member c m = Inr (Unversioned mp) \<Longrightarrow>
     combine_chain c fname code (m # post) cm assigned =
       Inr (if mp = Some [] then Some empty_sentinel else None, True)"
  by simp

lemma merged_not_None:
  "sms \<noteq> [] \<Longrightarrow> merged_left_to_right c fname code cm sms \<noteq> None"
proof (induction sms arbitrary: cm)
  case Nil
  then show ?case by simp
next
  case (Cons sm sms)
  have m: "merge_step c fname code cm sm \<noteq> None"
    by (simp add: merge_step_def split: option.splits)
  show ?case
  proof (cases sms)
    case Nil
    with m show ?thesis by (simp add: merged_left_to_right_def)
  next
    case (Cons a list)
    then have "sms \<noteq> []" by simp
    from Cons.IH [OF this] show ?thesis by (simp add: merged_left_to_right_def)
  qed
qed

lemma chain_collapse_fresh:
  assumes ns: "combinedMap ctx \<noteq> Some empty_sentinel"
  shows
   "(\<forall>pre sms m post.
       sourcemapChain ctx = pre @ m # post \<and> all_versioned c pre sms \<and>
       parse_member c m = Inr empty_sentinel \<longrightarrow>
       getCombinedSourcemap_chain c ctx =
         Inr (Some empty_sentinel,
              ctx\<lparr>sourcemapChain := [], combinedMap := Some empty_sentinel\<rparr>)) \<and>
    (\<forall>pre sms m mp post.
       sourcemapChain ctx = pre @ m # post \<and> all_versioned c pre sms \<and>
       parse_member c m = Inr (Unversioned mp) \<and> mp \<noteq> Some [] \<longrightarrow>
       (\<exists>ctx'. getCombinedSourcemap_chain c ctx = Inr (None, ctx') \<and> combinedMap ctx' = None \<and>
              (combinedMap ctx \<noteq> None \<longrightarrow> sourcemapChain ctx' = []))) \<and>
    (\<forall>sms.
       all_versioned c (sourcemapChain ctx) sms \<and> sms \<noteq> [] \<longrightarrow>
       getCombinedSourcemap_chain c ctx =
         Inr (merged_left_to_right c (filename ctx) (originalCode ctx) (combinedMap ctx) sms,
              ctx\<lparr>sourcemapChain := [],
                  combinedMap :=
                    merged_left_to_right c (filename ctx) (originalCode ctx) (combinedMap ctx) sms\<rparr>))"
proof (intro conjI allI impI)
  fix pre sms m post
  assume h: "sourcemapChain ctx = pre @ m # post \<and> all_versioned c pre sms \<and>
       parse_member c m = Inr empty_sentinel"
  then have p: "parse_member c m = Inr (Unversioned (Some []))" by (simp add: empty_sentinel_def)
  have "combine_chain c (filename ctx) (originalCode ctx) (sourcemapChain ctx) (combinedMap ctx) False
          = Inr (Some empty_sentinel, True)"
    using h combine_chain_versioned_prefix [of c pre sms "filename ctx" "originalCode ctx" "m # post"]
      combine_chain_unversioned [OF p]
    by simp
  then show "getCombinedSourcemap_chain c ctx =
         Inr (Some empty_sentinel, ctx\<lparr>sourcemapChain := [], combinedMap := Some empty_sentinel\<rparr>)"
    using ns by (simp add: getCombinedSourcemap_chain_def)
next
  fix pre sms m mp post
  assume h: "sourcemapChain ctx = pre @ m # post \<and> all_versioned c pre sms \<and>
       parse_member c m = Inr (Unversioned mp) \<and> mp \<noteq> Some []"
  then have p: "parse_member c m = Inr (Unversioned mp)" by simp
  have "combine_chain c (filename ctx) (originalCode ctx) (sourcemapChain ctx) (combinedMap ctx) False
          = Inr (None, True)"
    using h combine_chain_versioned_prefix [of c pre sms "filename ctx" "originalCode ctx" "m # post"]
      combine_chain_unversioned [OF p]
    by simp
  then show "\<exists>ctx'. getCombinedSourcemap_chain c ctx = Inr (None, ctx') \<and> combinedMap ctx' = None \<and>
              (combinedMap ctx \<noteq> None \<longrightarrow> sourcemapChain ctx' = [])"
    using ns by (simp add: getCombinedSourcemap_chain_def)
next
  fix sms
  assume h: "all_versioned c (sourcemapChain ctx) sms \<and> sms \<noteq> []"
  then have ne: "sourcemapChain ctx \<noteq> []" by (auto simp: all_versioned_def)
  have "combine_chain c (filename ctx) (originalCode ctx) (sourcemapChain ctx) (combinedMap ctx) False
          = Inr (merged_left_to_right c (filename ctx) (originalCode ctx) (combinedMap ctx) sms, True)"
    using h ne combine_chain_versioned_prefix [of c "sourcemapChain ctx" sms "filename ctx" "originalCode ctx" "[]"]
    by simp
  moreover have "merged_left_to_right c (filename ctx) (originalCode ctx) (combinedMap ctx) sms \<noteq> None"
    using h merged_not_None by blast
  ultimately show "getCombinedSourcemap_chain c ctx =
         Inr (merged_left_to_right c (filename ctx) (originalCode ctx) (combinedMap ctx) sms,
              ctx\<lparr>sourcemapChain := [],
                  combinedMap :=
                    merged_left_to_right c (filename ctx) (originalCode ctx) (combinedMap ctx) sms\<rparr>)"
    using ns by (simp add: getCombinedSourcemap_chain_def)
qed

text \<open>
  C4, as the code has it. When the stored combined map of a transform context is the
  sentinel already, the call returns the sentinel and empties the chain. Otherwise the
  chain is read from the left and its first member without a \<^verbatim>\<open>version\<close> decides:
  \<^item> if that member is the sentinel \<^verbatim>\<open>{mappings: ''}\<close>, the combined map becomes the
    sentinel and the chain is emptied;
  \<^item> if that member is anything else (a nullified map), the combined map becomes
    \<^verbatim>\<open>null\<close>, and the chain is emptied when the stored map was not \<^verbatim>\<open>null\<close>;
  \<^item> if every member has a \<^verbatim>\<open>version\<close>, the maps are merged from left to right into one
    map, which is stored, and the chain is emptied.
\<close>

theorem chain_collapse:
  "(combinedMap ctx = Some empty_sentinel \<longrightarrow>
      getCombinedSourcemap_chain c ctx = Inr (Some empty_sentinel, ctx\<lparr>sourcemapChain := []\<rparr>)) \<and>
   (combinedMap ctx \<noteq> Some empty_sentinel \<longrightarrow>
    (\<forall>pre sms m post.
        sourcemapChain ctx = pre @ m # post \<and> all_versioned c pre sms \<and>
        parse_member c m = Inr empty_sentinel \<longrightarrow>
        getCombinedSourcemap_chain c ctx =
          Inr (Some empty_sentinel,
               ctx\<lparr>sourcemapChain := [], combinedMap := Some empty_sentinel\<rparr>)) \<and>
     (\<forall>pre sms m mp post.
        sourcemapChain ctx = pre @ m # post \<and> all_versioned c pre sms \<and>
        parse_member c m = Inr (Unversioned mp) \<and> mp \<noteq> Some [] \<longrightarrow>
        (\<exists>ctx'. getCombinedSourcemap_chain c ctx = Inr (None, ctx') \<and> combinedMap ctx' = None \<and>
               (combinedMap ctx \<noteq> None \<longrightarrow> sourcemapChain ctx' = []))) \<and>
     (\<forall>sms.
        all_versioned c (sourcemapChain ctx) sms \<and> sms \<noteq> [] \<longrightarrow>
        getCombinedSourcemap_chain c ctx =
          Inr (merged_left_to_right c (filename ctx) (originalCode ctx) (combinedMap ctx) sms,
               ctx\<lparr>sourcemapChain := [],
                   combinedMap :=
                     merged_left_to_right c (filename ctx) (originalCode ctx) (combinedMap ctx) sms\<rparr>)))"
proof (intro conjI impI)
  assume "combinedMap ctx = Some empty_sentinel"
  then show "getCombinedSourcemap_chain c ctx =
      Inr (Some empty_sentinel, ctx\<lparr>sourcemapChain := []\<rparr>)"
    by (simp add: getCombinedSourcemap_chain_def)
qed (rule chain_collapse_fresh [THEN conjunct1], assumption,
     rule chain_collapse_fresh [THEN conjunct2, THEN conjunct1], assumption,
     rule chain_collapse_fresh [THEN conjunct2, THEN conjunct2], assumption)

text \<open>
  An instance of C4: a valid map followed by the sentinel collapses to the sentinel.
\<close>

theorem chain_collapse_witness:
  "combinedMap (ex_transform_context
       [ChainObject (Versioned (ex_map ''AAAA'')), ChainObject empty_sentinel] None)
     \<noteq> Some empty_sentinel \<and>
   getCombinedSourcemap_chain (ex_container False True no_plugins)
     (ex_transform_context
       [ChainObject (Versioned (ex_map ''AAAA'')), ChainObject empty_sentinel] None) =
   Inr (Some empty_sentinel, ex_transform_context [] (Some empty_sentinel))"
proof -
  let ?ctx = "ex_transform_context
       [ChainObject (Versioned (ex_map ''AAAA'')), ChainObject empty_sentinel] None"
  let ?c = "ex_container False True no_plugins"
  have ns: "combinedMap ?ctx \<noteq> Some empty_sentinel"
    by (simp add: ex_transform_context_def)
  have h: "sourcemapChain ?ctx = [ChainObject (Versioned (ex_map ''AAAA''))] @ ChainObject empty_sentinel # [] \<and>
      all_versioned ?c [ChainObject (Versioned (ex_map ''AAAA''))] [ex_map ''AAAA''] \<and>
      parse_member ?c (ChainObject empty_sentinel) = Inr empty_sentinel"
    by (simp add: ex_transform_context_def all_versioned_def parse_member_def)
  have e: "?ctx\<lparr>sourcemapChain := [], combinedMap := Some empty_sentinel\<rparr> =
      ex_transform_context [] (Some empty_sentinel)"
    by (simp add: ex_transform_context_def)
  from chain_collapse [of ?ctx ?c] ns h
  have "getCombinedSourcemap_chain ?c ?ctx =
      Inr (Some empty_sentinel, ?ctx\<lparr>sourcemapChain := [], combinedMap := Some empty_sentinel\<rparr>)"
    by blast
  then show ?thesis using ns by (simp only: e simp_thms)
qed

text \<open>
  C4 as stated fails: in this chain the second member is the sentinel, but the first one
  is a nullified map, so the combined map is \<^verbatim>\<open>null\<close>; and since the stored map was
  \<^verbatim>\<open>null\<close> already, the chain keeps its two members.
\<close>

theorem chain_collapse_counterexample:
  "getCombinedSourcemap_chain (ex_container False True no_plugins)
     (ex_transform_context [ChainObject (Unversioned None), ChainObject empty_sentinel] None) =
   Inr (None, ex_transform_context [ChainObject (Unversioned None), ChainObject empty_sentinel] None)"
  by (simp add: getCombinedSourcemap_chain_def ex_transform_context_def new_TransformContext_def
      parse_member_def empty_sentinel_def)

lemma chain_keeps_code:
  "getCombinedSourcemap_chain c ctx = Inr (im, ctx1) \<Longrightarrow>
     filename ctx1 = filename ctx \<and> originalCode ctx1 = originalCode ctx"
  by (auto simp: getCombinedSourcemap_chain_def split: if_splits sum.splits prod.splits)

text \<open>
  C9, as the code has it. When \<^verbatim>\<open>_getCombinedSourcemap\<close> returns the map \<open>im\<close>, the
  public \<^verbatim>\<open>getCombinedSourcemap\<close> returns the identity map that MagicString generates
  for the original code (with content, \<^verbatim>\<open>hires: 'boundary'\<close>) if \<open>im\<close> is \<^verbatim>\<open>null\<close> or the
  sentinel, and \<open>im\<close> itself otherwise. So it never returns \<^verbatim>\<open>null\<close> or the sentinel.
  For a non-empty original code its mappings are non-empty when the identity map was
  substituted (MagicString generating non-empty mappings for non-empty code) or when the
  combined map has non-empty mappings itself.
\<close>

theorem public_combined_sourcemap:
  assumes "getCombinedSourcemap_chain c ctx = Inr (im, ctx1)"
  shows "getCombinedSourcemap c ctx =
           Inr (if im = None \<or> im = Some empty_sentinel then identity_map c ctx else im, ctx1) \<and>
         (\<forall>m ctx'. getCombinedSourcemap c ctx = Inr (m, ctx') \<longrightarrow>
            m \<noteq> None \<and> m \<noteq> Some empty_sentinel \<and>
            (originalCode ctx \<noteq> [] \<and>
             (\<forall>opts code. code \<noteq> [] \<longrightarrow> mappings (generateMap c opts code) \<noteq> []) \<and>
             (im = None \<or> im = Some empty_sentinel \<or> nonempty_mappings im)
             \<longrightarrow> nonempty_mappings m))"
proof -
  from chain_keeps_code [OF assms]
  have k: "filename ctx1 = filename ctx" "originalCode ctx1 = originalCode ctx" by simp_all
  have e: "getCombinedSourcemap c ctx =
           Inr (if im = None \<or> im = Some empty_sentinel then identity_map c ctx else im, ctx1)"
    using assms k by (simp add: getCombinedSourcemap_def identity_map_def)
  have i: "identity_map c ctx \<noteq> None \<and> identity_map c ctx \<noteq> Some empty_sentinel"
    by (simp add: identity_map_def empty_sentinel_def)
  have n: "originalCode ctx \<noteq> [] \<Longrightarrow>
      (\<forall>opts code. code \<noteq> [] \<longrightarrow> mappings (generateMap c opts code) \<noteq> []) \<Longrightarrow>
      nonempty_mappings (identity_map c ctx)"
    by (simp add: nonempty_mappings_def identity_map_def map_mappings_def)
  show ?thesis
    using e i n by (auto split: if_splits)
qed

text \<open>
  C9 as stated fails: a chain whose only member is a map with a \<^verbatim>\<open>version\<close> and empty
  mappings is returned as it is, with empty mappings, although the original code \<^verbatim>\<open>X\<close>
  is not empty.
\<close>

theorem public_combined_sourcemap_counterexample:
  "originalCode (ex_transform_context [ChainObject (Versioned (ex_map []))] None) \<noteq> [] \<and>
   getCombinedSourcemap (ex_container False True no_plugins)
     (ex_transform_context [ChainObject (Versioned (ex_map []))] None) =
   Inr (Some (Versioned (ex_map [])), ex_transform_context [] (Some (Versioned (ex_map [])))) \<and>
   map_mappings (Versioned (ex_map [])) = Some []"
  by (simp add: getCombinedSourcemap_def getCombinedSourcemap_chain_def ex_transform_context_def
      new_TransformContext_def parse_member_def empty_sentinel_def first_map_def ex_map_def
      truthy_string_def map_mappings_def)

text \<open>
  An instance of C9: the chain collapses to the sentinel and the public call returns the
  identity map of the original code.
\<close>

theorem public_combined_sourcemap_witness:
  "getCombinedSourcemap_chain (ex_container False True no_plugins)
      (ex_transform_context [ChainObject empty_sentinel] None) =
     Inr (Some empty_sentinel, ex_transform_context [] (Some empty_sentinel)) \<and>
   getCombinedSourcemap (ex_container False True no_plugins)
      (ex_transform_context [ChainObject empty_sentinel] None) =
     Inr (Some (Versioned \<lparr>version = 3, sources = [Some ''/f.js''],
                 sourcesContent = Some [Some ''X''], mappings = ''AAAA'', names = []\<rparr>),
          ex_transform_context [] (Some empty_sentinel))"
proof -
  let ?c = "ex_container False True no_plugins"
  let ?ctx = "ex_transform_context [ChainObject empty_sentinel] None"
  have h: "getCombinedSourcemap_chain ?c ?ctx =
     Inr (Some empty_sentinel, ex_transform_context [] (Some empty_sentinel))"
    by (simp add: getCombinedSourcemap_chain_def ex_transform_context_def
      new_TransformContext_def parse_member_def empty_sentinel_def)
  have i: "identity_map ?c ?ctx = Some (Versioned \<lparr>version = 3, sources = [Some ''/f.js''],
                 sourcesContent = Some [Some ''X''], mappings = ''AAAA'', names = []\<rparr>)"
    by (simp add: identity_map_def ex_container_def ex_generateMap_def ex_transform_context_def
        new_TransformContext_def)
  from public_combined_sourcemap [OF h] have
    "getCombinedSourcemap ?c ?ctx = Inr (identity_map ?c ?ctx, ex_transform_context [] (Some empty_sentinel))"
    by simp
  with h i show ?thesis by simp
qed

section \<open>Properties of the hook drivers\<close>

subsection \<open>Calls on a closed container\<close>

lemma reopen_simps:
  "hook_options (c\<lparr>closed := b\<rparr>) options = hook_options c options"
  "finish_resolve (c\<lparr>closed := b\<rparr>) found = finish_resolve c found"
  "parse_member (c\<lparr>closed := b\<rparr>) m = parse_member c m"
  "invoke_resolveId res (c\<lparr>closed := b\<rparr>) ctx h rawId importer options =
     invoke_resolveId res c ctx h rawId importer options"
  "invoke_load res (c\<lparr>closed := b\<rparr>) ctx lh i = invoke_load res c ctx lh i"
  "invoke_transform res (c\<lparr>closed := b\<rparr>) tctx th code i inMap =
     invoke_transform res c tctx th code i inMap"
  "default_importer (c\<lparr>closed := b\<rparr>) imp = default_importer c imp"
  by (simp_all add: hook_options_def finish_resolve_def parse_member_def invoke_resolveId_def
      invoke_load_def invoke_transform_def default_importer_def split: option.splits chain_member.splits)

lemma reopen_resolveId_loop:
  "\<not> recoverable c \<Longrightarrow>
     resolveId_loop res (c\<lparr>closed := False\<rparr>) ctx rawId importer options ps =
     resolveId_loop res c ctx rawId importer options ps"
  by (induction ps arbitrary: ctx)
    (simp_all add: reopen_simps split: option.splits prod.splits sum.splits)

lemma reopen_resolveId_body:
  "\<not> recoverable c \<Longrightarrow> resolveId_body res (c\<lparr>closed := False\<rparr>) = resolveId_body res c"
  by (intro ext)
    (simp add: resolveId_body_def default_importer_def reopen_resolveId_loop reopen_simps
       split: option.splits prod.splits sum.splits)

lemma reopen_resolveId:
  "\<not> recoverable c \<Longrightarrow> resolveId n (c\<lparr>closed := False\<rparr>) = resolveId n c"
  by (induction n) (simp_all add: reopen_resolveId_body)

lemma reopen_load_loop:
  "\<not> recoverable c \<Longrightarrow>
     load_loop res (c\<lparr>closed := False\<rparr>) ctx i g ps = load_loop res c ctx i g ps"
  by (induction ps arbitrary: ctx)
    (simp_all add: reopen_simps split: option.splits prod.splits sum.splits load_result.splits)

lemma reopen_transform_loop:
  "\<not> recoverable c \<Longrightarrow>
     transform_loop res (c\<lparr>closed := False\<rparr>) i inMap ps code ctx g =
     transform_loop res c i inMap ps code ctx g"
  by (induction ps arbitrary: code ctx g)
    (simp_all add: reopen_simps Let_def
       split: option.splits prod.splits sum.splits transform_result.splits)

lemma reopen_combine_chain:
  "combine_chain (c\<lparr>closed := b\<rparr>) fname code ms cm assigned =
     combine_chain c fname code ms cm assigned"
  by (induction ms arbitrary: cm assigned)
    (simp_all add: reopen_simps split: option.splits sum.splits map_object.splits)

lemma reopen_chain:
  "getCombinedSourcemap_chain (c\<lparr>closed := b\<rparr>) ctx = getCombinedSourcemap_chain c ctx"
  by (simp add: getCombinedSourcemap_chain_def reopen_combine_chain)

text \<open>
  C1, as the code has it. Let the container be closed when a call to \<^verbatim>\<open>resolveId\<close>,
  \<^verbatim>\<open>load\<close> or \<^verbatim>\<open>transform\<close> starts.
  \<^item> If \<^verbatim>\<open>recoverable\<close> is true and the sorted plugin list of the hook is not empty,
    the call raises ClosedServer (code \<^verbatim>\<open>ERR_CLOSED_SERVER\<close>) before it invokes any
    handler.
  \<^item> If \<^verbatim>\<open>recoverable\<close> is false, the call does exactly what it does on a container
    that is not closed: it does not raise ClosedServer of its own.
\<close>

theorem closed_server_guard:
  assumes "closed c"
  shows "(recoverable c \<longrightarrow>
            (getSortedPlugins c ResolveIdHook \<noteq> [] \<longrightarrow>
               resolveId n c rawId importer options = (Some (Inl closedServerError), [])) \<and>
            (getSortedPlugins c LoadHook \<noteq> [] \<longrightarrow>
               load n c i g = (Some (Inl closedServerError), g, [])) \<and>
            (getSortedPlugins c TransformHook \<noteq> [] \<longrightarrow>
               transform n c code i inMap g = (Some (Inl closedServerError), g, []))) \<and>
         (\<not> recoverable c \<longrightarrow>
            resolveId n c rawId importer options =
              resolveId n (c\<lparr>closed := False\<rparr>) rawId importer options \<and>
            load n c i g = load n (c\<lparr>closed := False\<rparr>) i g \<and>
            transform n c code i inMap g = transform n (c\<lparr>closed := False\<rparr>) code i inMap g)"
proof (intro conjI impI)
  assume r: "recoverable c" and ne: "getSortedPlugins c ResolveIdHook \<noteq> []"
  then obtain p ps where l: "getSortedPlugins c ResolveIdHook = p # ps"
    by (cases "getSortedPlugins c ResolveIdHook") auto
  show "resolveId n c rawId importer options = (Some (Inl closedServerError), [])"
    using assms r l by (cases n) (simp_all add: resolveId_body_def)
next
  assume r: "recoverable c" and ne: "getSortedPlugins c LoadHook \<noteq> []"
  then obtain p ps where l: "getSortedPlugins c LoadHook = p # ps"
    by (cases "getSortedPlugins c LoadHook") auto
  show "load n c i g = (Some (Inl closedServerError), g, [])"
    using assms r l by (simp add: load_def)
next
  assume r: "recoverable c" and ne: "getSortedPlugins c TransformHook \<noteq> []"
  then obtain p ps where l: "getSortedPlugins c TransformHook = p # ps"
    by (cases "getSortedPlugins c TransformHook") auto
  show "transform n c code i inMap g = (Some (Inl closedServerError), g, [])"
    using assms r l by (simp add: transform_def)
next
  assume "\<not> recoverable c"
  then show "resolveId n c rawId importer options =
              resolveId n (c\<lparr>closed := False\<rparr>) rawId importer options"
    by (simp add: reopen_resolveId)
next
  assume "\<not> recoverable c"
  then show "load n c i g = load n (c\<lparr>closed := False\<rparr>) i g"
    by (simp add: load_def reopen_resolveId reopen_load_loop)
next
  assume "\<not> recoverable c"
  then show "transform n c code i inMap g = transform n (c\<lparr>closed := False\<rparr>) code i inMap g"
    by (simp add: transform_def reopen_resolveId reopen_transform_loop reopen_chain
        split: option.splits prod.splits sum.splits)
qed


text \<open>
  C1 as stated fails in both directions: on a closed container with \<^verbatim>\<open>recoverable\<close>
  false, \<^verbatim>\<open>resolveId\<close> invokes the plugin and returns its result; with \<^verbatim>\<open>recoverable\<close>
  true, it raises ClosedServer.
\<close>

theorem closed_server_guard_counterexample:
  "closed (ex_container True False (sorted_as [echo_plugin])) \<and>
   \<not> recoverable (ex_container True False (sorted_as [echo_plugin])) \<and>
   resolveId 0 (ex_container True False (sorted_as [echo_plugin])) ''a'' None None =
     (Some (Inr (Some \<lparr>res_id = ''/abs/a'', res_external = None, res_meta = None\<rparr>)),
           [Invoked 7 []]) \<and>
   closed (ex_container True True (sorted_as [echo_plugin])) \<and>
   recoverable (ex_container True True (sorted_as [echo_plugin])) \<and>
   resolveId 0 (ex_container True True (sorted_as [echo_plugin])) ''a'' None None =
     (Some (Inl closedServerError), [])"
  by (simp add: ex_container_def sorted_as_def echo_plugin_def resolveId_body_def
      resolveId_context_def default_importer_def new_Context_def skipped_def
      invoke_resolveId_def hook_options_def finish_resolve_def)

text \<open>
  An instance of C1: a closed container with one plugin. With \<^verbatim>\<open>recoverable\<close> true the
  three calls raise ClosedServer; with \<^verbatim>\<open>recoverable\<close> false, \<^verbatim>\<open>load\<close> returns the
  plugin's result.
\<close>

theorem closed_server_guard_witness:
  "closed (ex_container True True (sorted_as [echo_plugin])) \<and>
   resolveId 0 (ex_container True True (sorted_as [echo_plugin])) ''a'' None None =
     (Some (Inl closedServerError), []) \<and>
   load 0 (ex_container True True (sorted_as [echo_plugin])) ''/abs/a'' None =
     (Some (Inl closedServerError), None, []) \<and>
   transform 0 (ex_container True True (sorted_as [echo_plugin])) ''X'' ''/abs/a'' NoMap None =
     (Some (Inl closedServerError), None, []) \<and>
   closed (ex_container True False (sorted_as [echo_plugin])) \<and>
   load 0 (ex_container True False (sorted_as [echo_plugin])) ''/abs/a'' None =
     (Some (Inr (LoadString ''code'')), None, [Invoked 7 []])"
proof -
  have c1: "closed (ex_container True True (sorted_as [echo_plugin]))"
    and r1: "recoverable (ex_container True True (sorted_as [echo_plugin]))"
    and s1: "getSortedPlugins (ex_container True True (sorted_as [echo_plugin])) h \<noteq> []" for h
    by (simp_all add: ex_container_def sorted_as_def)
  have c2: "closed (ex_container True False (sorted_as [echo_plugin]))"
    and r2: "\<not> recoverable (ex_container True False (sorted_as [echo_plugin]))"
    by (simp_all add: ex_container_def)
  have o: "load 0 ((ex_container True False (sorted_as [echo_plugin]))\<lparr>closed := False\<rparr>) ''/abs/a'' None =
     (Some (Inr (LoadString ''code'')), None, [Invoked 7 []])"
    by (simp add: load_def ex_container_def sorted_as_def echo_plugin_def invoke_load_def)
  from closed_server_guard [OF c1, where n = 0 and rawId = "''a''" and importer = None
      and options = None and i = "''/abs/a''" and g = None and code = "''X''" and inMap = NoMap]
    closed_server_guard [OF c2, where n = 0 and rawId = "''a''" and importer = None
      and options = None and i = "''/abs/a''" and g = None and code = "''X''" and inMap = NoMap]
    c1 r1 s1 c2 r2 o
  show ?thesis by simp
qed

subsection \<open>The first result wins\<close>

lemma resolveId_unfold: "resolveId n c = resolveId_body (nested n c) c"
  by (cases n) (simp_all add: nested_def)

lemma resolveId_loop_active:
  "resolveId_loop res c (ctx\<lparr>activePlugin := x\<rparr>) rawId importer options ps =
     resolveId_loop res c ctx rawId importer options ps"
  by (induction ps arbitrary: ctx x)
    (simp_all split: option.splits prod.splits sum.splits)

lemma load_loop_active:
  "load_loop res c (ctx\<lparr>activePlugin := x\<rparr>) i g ps = load_loop res c ctx i g ps"
  by (induction ps arbitrary: ctx x)
    (simp_all split: option.splits prod.splits sum.splits load_result.splits)

lemma preceded_by_Nil: "preceded_by [] out = out"
  by (cases out) (auto simp: preceded_by_def)

lemma after_preceded:
  "after_invocation e (preceded_by evs0 out) = preceded_by (e # evs0) out"
  by (cases out) (auto simp: preceded_by_def after_invocation_def)

lemma preceded_by_g_Nil: "preceded_by_g [] out = out"
  by (cases out) (auto simp: preceded_by_g_def)

lemma after_preceded_g:
  "after_invocation_g e (preceded_by_g evs0 out) = preceded_by_g (e # evs0) out"
  by (cases out) (auto simp: preceded_by_g_def after_invocation_g_def)

lemma resolveId_loop_step_pass:
  assumes "\<not> (closed c \<and> recoverable c)"
    and "resolveId_passes n c rawId importer options p"
  shows "\<exists>es. map invoked_ref es = map plugin_ref (filter (resolveId_eligible options) [p]) \<and>
           (\<forall>ps. resolveId_loop (nested n c) c (resolveId_context options) rawId
                    (default_importer c importer) options (p # ps) =
                  preceded_by es
                    (resolveId_loop (nested n c) c (resolveId_context options) rawId
                       (default_importer c importer) options ps))"
proof (cases "resolveId_eligible options p")
  case False
  then have "\<forall>ps. resolveId_loop (nested n c) c (resolveId_context options) rawId
                    (default_importer c importer) options (p # ps) =
                  preceded_by []
                    (resolveId_loop (nested n c) c (resolveId_context options) rawId
                       (default_importer c importer) options ps)"
    using assms(1) by (auto simp: resolveId_eligible_def preceded_by_Nil split: option.splits)
  with False show ?thesis by auto
next
  case True
  then obtain h where h: "resolveId_hook p = Some h" and ns: "\<not> skipped options p"
    by (auto simp: resolveId_eligible_def)
  from assms(2) True obtain r evs where
    a: "resolveId_answer n c rawId importer options p = (Some (Inr r), evs)" and t: "taken r = None"
    by (cases "resolveId_answer n c rawId importer options p")
      (auto simp: resolveId_passes_def split: option.splits prod.splits sum.splits)
  from a h have i: "invoke_resolveId (nested n c) c ((resolveId_context options)\<lparr>activePlugin := Some p\<rparr>)
            h rawId (default_importer c importer) options = (Some (Inr r), evs)"
    by (simp add: resolveId_answer_def)
  have "\<forall>ps. resolveId_loop (nested n c) c (resolveId_context options) rawId
                    (default_importer c importer) options (p # ps) =
                  preceded_by [Invoked (plugin_ref p) evs]
                    (resolveId_loop (nested n c) c (resolveId_context options) rawId
                       (default_importer c importer) options ps)"
    using assms(1) h ns i t
    by (auto simp: resolveId_loop_active after_preceded [of _ "[]", simplified preceded_by_Nil])
  with True show ?thesis by (intro exI [of _ "[Invoked (plugin_ref p) evs]"]) simp
qed

lemma preceded_by_twice: "preceded_by xs (preceded_by ys out) = preceded_by (xs @ ys) out"
  by (cases out) (auto simp: preceded_by_def)

lemma resolveId_loop_prefix:
  assumes "\<not> (closed c \<and> recoverable c)"
    and "\<forall>q\<in>set pre. resolveId_passes n c rawId importer options q"
  shows "\<exists>evs0. map invoked_ref evs0 = map plugin_ref (filter (resolveId_eligible options) pre) \<and>
           (\<forall>rest. resolveId_loop (nested n c) c (resolveId_context options) rawId
                    (default_importer c importer) options (pre @ rest) =
                  preceded_by evs0
                    (resolveId_loop (nested n c) c (resolveId_context options) rawId
                       (default_importer c importer) options rest))"
  using assms(2)
proof (induction pre)
  case Nil
  show ?case by (intro exI [of _ "[]"]) (simp add: preceded_by_Nil)
next
  case (Cons p pre)
  from Cons.prems have pp: "resolveId_passes n c rawId importer options p"
    and rest: "\<forall>q\<in>set pre. resolveId_passes n c rawId importer options q" by simp_all
  from resolveId_loop_step_pass [OF assms(1) pp] obtain es where
    es: "map invoked_ref es = map plugin_ref (filter (resolveId_eligible options) [p])"
    and st: "\<And>ps. resolveId_loop (nested n c) c (resolveId_context options) rawId
                    (default_importer c importer) options (p # ps) =
                  preceded_by es
                    (resolveId_loop (nested n c) c (resolveId_context options) rawId
                       (default_importer c importer) options ps)"
    by blast
  from Cons.IH [OF rest] obtain evs0 where
    e0: "map invoked_ref evs0 = map plugin_ref (filter (resolveId_eligible options) pre)"
    and ih: "\<And>rest. resolveId_loop (nested n c) c (resolveId_context options) rawId
                    (default_importer c importer) options (pre @ rest) =
                  preceded_by evs0
                    (resolveId_loop (nested n c) c (resolveId_context options) rawId
                       (default_importer c importer) options rest)"
    by blast
  have m: "map invoked_ref (es @ evs0) = map plugin_ref (filter (resolveId_eligible options) (p # pre))"
    using es e0 by (simp split: if_splits)
  have "\<forall>rest. resolveId_loop (nested n c) c (resolveId_context options) rawId
                    (default_importer c importer) options ((p # pre) @ rest) =
                  preceded_by (es @ evs0)
                    (resolveId_loop (nested n c) c (resolveId_context options) rawId
                       (default_importer c importer) options rest)"
    by (simp only: append_Cons st ih preceded_by_twice simp_thms)
  with m show ?case by blast
qed

lemma resolveId_loop_hit:
  assumes "\<not> (closed c \<and> recoverable c)"
    and "resolveId_eligible options p"
    and "resolveId_answer n c rawId importer options p = (Some (Inr r), evs)"
    and "taken r = Some found"
  shows "resolveId_loop (nested n c) c (resolveId_context options) rawId
            (default_importer c importer) options (p # post) =
         (Some (Inr (Some found)), [Invoked (plugin_ref p) evs])"
  using assms
  by (auto simp: resolveId_eligible_def resolveId_answer_def)


lemma load_loop_step_pass:
  assumes "\<not> (closed c \<and> recoverable c)"
    and "load_passes n c i p"
  shows "\<exists>es. map invoked_ref es = map plugin_ref (filter load_eligible [p]) \<and>
           (\<forall>ps. load_loop (resolveId n c) c (new_Context None) i g (p # ps) =
                  preceded_by_g es (load_loop (resolveId n c) c (new_Context None) i g ps))"
proof (cases "load_eligible p")
  case False
  then have "\<forall>ps. load_loop (resolveId n c) c (new_Context None) i g (p # ps) =
                  preceded_by_g [] (load_loop (resolveId n c) c (new_Context None) i g ps)"
    using assms(1) by (auto simp: load_eligible_def preceded_by_g_Nil)
  with False show ?thesis by auto
next
  case True
  then obtain h where h: "load_hook p = Some h"
    by (auto simp: load_eligible_def)
  from assms(2) h obtain evs where
    a: "load_answer n c i p = (Some (Inr LoadNull), evs)"
    by (cases "load_answer n c i p")
      (auto simp: load_passes_def split: option.splits prod.splits sum.splits)
  from a h have iv: "invoke_load (resolveId n c) c ((new_Context None)\<lparr>activePlugin := Some p\<rparr>) h i
      = (Some (Inr LoadNull), evs)"
    by (simp add: load_answer_def)
  have "\<forall>ps. load_loop (resolveId n c) c (new_Context None) i g (p # ps) =
                  preceded_by_g [Invoked (plugin_ref p) evs]
                    (load_loop (resolveId n c) c (new_Context None) i g ps)"
    using assms(1) h iv
    by (auto simp: load_loop_active after_preceded_g [of _ "[]", simplified preceded_by_g_Nil])
  with True show ?thesis by (intro exI [of _ "[Invoked (plugin_ref p) evs]"]) simp
qed

lemma preceded_by_g_twice: "preceded_by_g xs (preceded_by_g ys out) = preceded_by_g (xs @ ys) out"
  by (cases out) (auto simp: preceded_by_g_def)

lemma load_loop_prefix:
  assumes "\<not> (closed c \<and> recoverable c)"
    and "\<forall>q\<in>set pre. load_passes n c i q"
  shows "\<exists>evs0. map invoked_ref evs0 = map plugin_ref (filter load_eligible pre) \<and>
           (\<forall>rest. load_loop (resolveId n c) c (new_Context None) i g (pre @ rest) =
                  preceded_by_g evs0 (load_loop (resolveId n c) c (new_Context None) i g rest))"
  using assms(2)
proof (induction pre)
  case Nil
  show ?case by (intro exI [of _ "[]"]) (simp add: preceded_by_g_Nil)
next
  case (Cons p pre)
  from Cons.prems have pp: "load_passes n c i p"
    and rest: "\<forall>q\<in>set pre. load_passes n c i q" by simp_all
  from load_loop_step_pass [OF assms(1) pp, of g] obtain es where
    es: "map invoked_ref es = map plugin_ref (filter load_eligible [p])"
    and st: "\<And>ps. load_loop (resolveId n c) c (new_Context None) i g (p # ps) =
                  preceded_by_g es (load_loop (resolveId n c) c (new_Context None) i g ps)"
    by blast
  from Cons.IH [OF rest] obtain evs0 where
    e0: "map invoked_ref evs0 = map plugin_ref (filter load_eligible pre)"
    and ih: "\<And>rest. load_loop (resolveId n c) c (new_Context None) i g (pre @ rest) =
                  preceded_by_g evs0 (load_loop (resolveId n c) c (new_Context None) i g rest)"
    by blast
  have m: "map invoked_ref (es @ evs0) = map plugin_ref (filter load_eligible (p # pre))"
    using es e0 by (simp split: if_splits)
  have "\<forall>rest. load_loop (resolveId n c) c (new_Context None) i g ((p # pre) @ rest) =
                  preceded_by_g (es @ evs0) (load_loop (resolveId n c) c (new_Context None) i g rest)"
    by (simp only: append_Cons st ih preceded_by_g_twice simp_thms)
  with m show ?case by blast
qed

lemma load_loop_hit:
  assumes "\<not> (closed c \<and> recoverable c)"
    and "load_eligible p"
    and "load_answer n c i p = (Some (Inr r), evs)"
    and "r \<noteq> LoadNull"
  shows "load_loop (resolveId n c) c (new_Context None) i g (p # post) =
         (Some (Inr r), graph_after_load i r g, [Invoked (plugin_ref p) evs])"
  using assms
  by (cases r) (auto simp: load_eligible_def load_answer_def graph_after_load_def)

text \<open>
  What the two loops do, in general. Take a call to \<^verbatim>\<open>resolveId\<close> or \<^verbatim>\<open>load\<close> that does
  not raise ClosedServer. The handlers are invoked in the order of the sorted list, and:
  \<^item> when every plugin before \<open>p\<close> in the list passes (it has no such hook, is skipped,
    or answers with a falsy result for \<^verbatim>\<open>resolveId\<close>, with \<^verbatim>\<open>null\<close> for \<^verbatim>\<open>load\<close>) and \<open>p\<close>
    answers with a truthy result (for \<^verbatim>\<open>load\<close>: a non-null one), the call returns that
    result and its invocations are those of the eligible plugins before \<open>p\<close>, in order,
    and then \<open>p\<close>: no handler of a later plugin is invoked;
  \<^item> when every plugin of the list passes, the call returns \<^verbatim>\<open>null\<close>, having invoked the
    eligible plugins in order.
\<close>

lemma loops_stop_at_first_taken:
  assumes op: "\<not> (closed c \<and> recoverable c)"
  shows
   "(\<forall>pre p post r evs found.
       getSortedPlugins c ResolveIdHook = pre @ p # post \<and>
       (\<forall>q\<in>set pre. resolveId_passes n c rawId importer options q) \<and>
       resolveId_eligible options p \<and>
       resolveId_answer n c rawId importer options p = (Some (Inr r), evs) \<and>
       taken r = Some found \<longrightarrow>
       (\<exists>evs0. map invoked_ref evs0 = map plugin_ref (filter (resolveId_eligible options) pre) \<and>
          resolveId n c rawId importer options =
            (Some (Inr (finish_resolve c (Some found))), evs0 @ [Invoked (plugin_ref p) evs]))) \<and>
    ((\<forall>q\<in>set (getSortedPlugins c ResolveIdHook). resolveId_passes n c rawId importer options q) \<longrightarrow>
       (\<exists>evs0. map invoked_ref evs0 =
                 map plugin_ref (filter (resolveId_eligible options) (getSortedPlugins c ResolveIdHook)) \<and>
          resolveId n c rawId importer options = (Some (Inr None), evs0))) \<and>
    (\<forall>pre p post r evs.
       getSortedPlugins c LoadHook = pre @ p # post \<and>
       (\<forall>q\<in>set pre. load_passes n c i q) \<and>
       load_eligible p \<and>
       load_answer n c i p = (Some (Inr r), evs) \<and> r \<noteq> LoadNull \<longrightarrow>
       (\<exists>evs0. map invoked_ref evs0 = map plugin_ref (filter load_eligible pre) \<and>
          load n c i g =
            (Some (Inr r), graph_after_load i r g, evs0 @ [Invoked (plugin_ref p) evs]))) \<and>
    ((\<forall>q\<in>set (getSortedPlugins c LoadHook). load_passes n c i q) \<longrightarrow>
       (\<exists>evs0. map invoked_ref evs0 =
                 map plugin_ref (filter load_eligible (getSortedPlugins c LoadHook)) \<and>
          load n c i g = (Some (Inr LoadNull), g, evs0)))"
proof (intro conjI allI impI)
  fix pre p post r evs found
  assume h: "getSortedPlugins c ResolveIdHook = pre @ p # post \<and>
       (\<forall>q\<in>set pre. resolveId_passes n c rawId importer options q) \<and>
       resolveId_eligible options p \<and>
       resolveId_answer n c rawId importer options p = (Some (Inr r), evs) \<and>
       taken r = Some found"
  then have pass: "\<forall>q\<in>set pre. resolveId_passes n c rawId importer options q" by simp
  from resolveId_loop_prefix [OF op pass] obtain evs0 where
    e0: "map invoked_ref evs0 = map plugin_ref (filter (resolveId_eligible options) pre)"
    and pf: "\<And>rest. resolveId_loop (nested n c) c (resolveId_context options) rawId
                    (default_importer c importer) options (pre @ rest) =
                  preceded_by evs0
                    (resolveId_loop (nested n c) c (resolveId_context options) rawId
                       (default_importer c importer) options rest)"
    by blast
  have hit: "resolveId_loop (nested n c) c (resolveId_context options) rawId
            (default_importer c importer) options (p # post) =
         (Some (Inr (Some found)), [Invoked (plugin_ref p) evs])"
    using h resolveId_loop_hit [OF op, of options p n rawId importer r evs found post] by simp
  have l: "getSortedPlugins c ResolveIdHook = pre @ p # post" using h by simp
  have "resolveId_loop (nested n c) c (resolveId_context options) rawId
            (default_importer c importer) options (getSortedPlugins c ResolveIdHook) =
          (Some (Inr (Some found)), evs0 @ [Invoked (plugin_ref p) evs])"
    unfolding l pf hit by (simp add: preceded_by_def)
  then have "resolveId n c rawId importer options =
            (Some (Inr (finish_resolve c (Some found))), evs0 @ [Invoked (plugin_ref p) evs])"
    by (simp add: resolveId_unfold resolveId_body_def)
  with e0 show "\<exists>evs0. map invoked_ref evs0 = map plugin_ref (filter (resolveId_eligible options) pre) \<and>
          resolveId n c rawId importer options =
            (Some (Inr (finish_resolve c (Some found))), evs0 @ [Invoked (plugin_ref p) evs])"
    by blast
next
  assume pass: "\<forall>q\<in>set (getSortedPlugins c ResolveIdHook). resolveId_passes n c rawId importer options q"
  from resolveId_loop_prefix [OF op pass] obtain evs0 where
    e0: "map invoked_ref evs0 =
           map plugin_ref (filter (resolveId_eligible options) (getSortedPlugins c ResolveIdHook))"
    and pf: "\<And>rest. resolveId_loop (nested n c) c (resolveId_context options) rawId
                    (default_importer c importer) options (getSortedPlugins c ResolveIdHook @ rest) =
                  preceded_by evs0
                    (resolveId_loop (nested n c) c (resolveId_context options) rawId
                       (default_importer c importer) options rest)"
    by blast
  have "resolveId n c rawId importer options = (Some (Inr None), evs0)"
    using pf [of "[]"] by (simp add: resolveId_unfold resolveId_body_def preceded_by_def finish_resolve_def)
  with e0 show "\<exists>evs0. map invoked_ref evs0 =
                 map plugin_ref (filter (resolveId_eligible options) (getSortedPlugins c ResolveIdHook)) \<and>
          resolveId n c rawId importer options = (Some (Inr None), evs0)"
    by blast
next
  fix pre p post r evs
  assume h: "getSortedPlugins c LoadHook = pre @ p # post \<and>
       (\<forall>q\<in>set pre. load_passes n c i q) \<and>
       load_eligible p \<and>
       load_answer n c i p = (Some (Inr r), evs) \<and> r \<noteq> LoadNull"
  then have pass: "\<forall>q\<in>set pre. load_passes n c i q" by simp
  from load_loop_prefix [OF op pass, of g] obtain evs0 where
    e0: "map invoked_ref evs0 = map plugin_ref (filter load_eligible pre)"
    and pf: "\<And>rest. load_loop (resolveId n c) c (new_Context None) i g (pre @ rest) =
                  preceded_by_g evs0 (load_loop (resolveId n c) c (new_Context None) i g rest)"
    by blast
  have hit: "load_loop (resolveId n c) c (new_Context None) i g (p # post) =
         (Some (Inr r), graph_after_load i r g, [Invoked (plugin_ref p) evs])"
    using h load_loop_hit [OF op, of p n i r evs g post] by simp
  have l: "getSortedPlugins c LoadHook = pre @ p # post" using h by simp
  have "load n c i g = (Some (Inr r), graph_after_load i r g, evs0 @ [Invoked (plugin_ref p) evs])"
    unfolding load_def l pf hit by (simp add: preceded_by_g_def)
  with e0 show "\<exists>evs0. map invoked_ref evs0 = map plugin_ref (filter load_eligible pre) \<and>
          load n c i g =
            (Some (Inr r), graph_after_load i r g, evs0 @ [Invoked (plugin_ref p) evs])"
    by blast
next
  assume pass: "\<forall>q\<in>set (getSortedPlugins c LoadHook). load_passes n c i q"
  from load_loop_prefix [OF op pass, of g] obtain evs0 where
    e0: "map invoked_ref evs0 = map plugin_ref (filter load_eligible (getSortedPlugins c LoadHook))"
    and pf: "\<And>rest. load_loop (resolveId n c) c (new_Context None) i g (getSortedPlugins c LoadHook @ rest) =
                  preceded_by_g evs0 (load_loop (resolveId n c) c (new_Context None) i g rest)"
    by blast
  have "load n c i g = (Some (Inr LoadNull), g, evs0)"
    using pf [of "[]"] by (simp add: load_def preceded_by_g_def)
  with e0 show "\<exists>evs0. map invoked_ref evs0 =
                 map plugin_ref (filter load_eligible (getSortedPlugins c LoadHook)) \<and>
          load n c i g = (Some (Inr LoadNull), g, evs0)"
    by blast
qed

lemmas example_defs = ex_container_def sorted_as_def answering_def resolving_plugin_def
  plain_plugin_def resolveId_body_def resolveId_context_def default_importer_def new_Context_def
  skipped_def invoke_resolveId_def hook_options_def finish_resolve_def after_invocation_def

text \<open>
  An instance: the first plugin returns \<^verbatim>\<open>null\<close>, the second \<^verbatim>\<open>/abs/a.js\<close>, and the third
  is not invoked.
\<close>

lemma loops_stop_at_first_taken_instance:
  "\<not> (closed (ex_container False True (sorted_as scenario_A)) \<and>
      recoverable (ex_container False True (sorted_as scenario_A))) \<and>
   (\<exists>evs0. map invoked_ref evs0 = [1] \<and>
      resolveId 0 (ex_container False True (sorted_as scenario_A)) ''a'' None None =
        (Some (Inr (Some \<lparr>res_id = ''/abs/a.js'', res_external = None, res_meta = None\<rparr>)),
              evs0 @ [Invoked 2 []]))"
proof -
  let ?c = "ex_container False True (sorted_as scenario_A)"
  let ?P1 = "answering 1 ''P1'' ResolveNull"
  let ?P2 = "answering 2 ''P2'' (ResolveString ''/abs/a.js'')"
  let ?P3 = "answering 3 ''P3'' (ResolveString ''/abs/b.js'')"
  have op: "\<not> (closed ?c \<and> recoverable ?c)" by (simp add: ex_container_def)
  have l: "getSortedPlugins ?c ResolveIdHook = [?P1] @ ?P2 # [?P3]"
    by (simp add: ex_container_def sorted_as_def scenario_A_def)
  have p1: "\<forall>q\<in>set [?P1]. resolveId_passes 0 ?c ''a'' None None q"
    by (simp add: resolveId_passes_def resolveId_eligible_def resolveId_answer_def nested_def
        example_defs)
  have e2: "resolveId_eligible None ?P2"
    by (simp add: resolveId_eligible_def example_defs)
  have a2: "resolveId_answer 0 ?c ''a'' None None ?P2 = (Some (Inr (ResolveString ''/abs/a.js'')), [])"
    by (simp add: resolveId_answer_def nested_def example_defs)
  have t2: "taken (ResolveString ''/abs/a.js'') = Some (''/abs/a.js'', None)" by simp
  have f: "finish_resolve ?c (Some (''/abs/a.js'', None)) =
      Some \<lparr>res_id = ''/abs/a.js'', res_external = None, res_meta = None\<rparr>"
    by (simp add: finish_resolve_def ex_container_def)
  have m: "map plugin_ref (filter (resolveId_eligible None) [?P1]) = [1]"
    by (simp add: resolveId_eligible_def example_defs)
  from loops_stop_at_first_taken [OF op, where n = 0 and rawId = "''a''" and importer = None
      and options = None] l p1 e2 a2 t2
  have "\<exists>evs0. map invoked_ref evs0 = map plugin_ref (filter (resolveId_eligible None) [?P1]) \<and>
          resolveId 0 ?c ''a'' None None =
            (Some (Inr (finish_resolve ?c (Some (''/abs/a.js'', None)))), evs0 @ [Invoked (plugin_ref ?P2) []])"
    by blast
  then show ?thesis using op
    by (simp only: f m) (simp add: example_defs)
qed

text \<open>
  C2 fails in \<^verbatim>\<open>resolveId\<close>, against the code's own comment at the \<^verbatim>\<open>break\<close> of its loop
  (\<^verbatim>\<open>resolveId() is hookFirst - first non-null result is returned.\<close>) and against the
  loop of \<^verbatim>\<open>load\<close>, which tests \<^verbatim>\<open>result != null\<close>: the loop of \<^verbatim>\<open>resolveId\<close> tests
  \<^verbatim>\<open>if (!result) continue\<close>. The first plugin returns \<^verbatim>\<open>false\<close> (in the second list, the
  empty string), which is not \<^verbatim>\<open>null\<close>; the handler of the second plugin is invoked all the
  same and decides the result. In \<^verbatim>\<open>load\<close>, a first plugin that returns the empty string
  ends the call, and the handler of the second plugin is not invoked.
\<close>

theorem resolveId_passes_over_non_null_result:
  "resolveId 0 (ex_container False True (sorted_as false_then_b)) ''a'' None None =
     (Some (Inr (Some \<lparr>res_id = ''/abs/b.js'', res_external = None, res_meta = None\<rparr>)),
      [Invoked 1 [], Invoked 2 []]) \<and>
   resolveId 0 (ex_container False True (sorted_as empty_then_b)) ''a'' None None =
     (Some (Inr (Some \<lparr>res_id = ''/abs/b.js'', res_external = None, res_meta = None\<rparr>)),
      [Invoked 1 [], Invoked 2 []]) \<and>
   load 0 (ex_container False True (sorted_as empty_load_then_b)) ''/abs/a.js'' None =
     (Some (Inr (LoadString [])), None, [Invoked 1 []])"
  by (simp add: example_defs false_then_b_def empty_then_b_def empty_load_then_b_def load_def
      loading_def invoke_load_def)

subsection \<open>Object results of transform\<close>

text \<open>
  C3, as the code has it. When the loop of \<^verbatim>\<open>transform\<close> invokes the handler of a plugin
  and the handler returns an object \<open>r\<close>, the loop goes on to the next plugins with
  \<^item> the running code replaced by \<^verbatim>\<open>r.code\<close> only when \<^verbatim>\<open>r.code !== undefined\<close>;
  \<^item> \<^verbatim>\<open>r.map\<close> pushed onto the source-map chain when \<^verbatim>\<open>r.code !== undefined\<close> and
    \<^verbatim>\<open>r.map\<close> is truthy, and the chain unchanged otherwise;
  \<^item> the module graph updated by \<^verbatim>\<open>_updateModuleInfo(id, r)\<close>, which applies \<^verbatim>\<open>r.meta\<close>.
\<close>

theorem transform_object_result:
  assumes "\<not> (closed c \<and> recoverable c)"
    and "transform_hook p = Some h"
    and "invoke_transform res c
           (ctx\<lparr>activePlugin := Some p, activeId := Some i, activeCode := Some code\<rparr>)
           h code i inMap = (Some (Inr (TransformObject r)), evs)"
  shows "\<exists>code' ctx'.
           transform_loop res c i inMap (p # ps) code ctx g =
             after_invocation_g (Invoked (plugin_ref p) evs)
               (transform_loop res c i inMap ps code' ctx' (updateModuleInfo i (sd_meta r) g)) \<and>
           code' = (case sd_code r of None \<Rightarrow> code | Some cd \<Rightarrow> cd) \<and>
           sourcemapChain ctx' =
             (case sd_code r of
                None \<Rightarrow> sourcemapChain ctx
              | Some cd \<Rightarrow>
                  (case truthy_map (sd_map r) of
                     None \<Rightarrow> sourcemapChain ctx
                   | Some m \<Rightarrow> sourcemapChain ctx @ [m])) \<and>
           combinedMap ctx' = combinedMap ctx \<and>
           filename ctx' = filename ctx \<and> originalCode ctx' = originalCode ctx"
proof -
  let ?ctx1 = "ctx\<lparr>activePlugin := Some p, activeId := Some i, activeCode := Some code\<rparr>"
  let ?code' = "fst (apply_object_result r code ?ctx1)"
  let ?ctx' = "snd (apply_object_result r code ?ctx1)"
  have op: "(closed c \<and> recoverable c) = False" using assms(1) by simp
  have step: "transform_loop res c i inMap (p # ps) code ctx g =
             after_invocation_g (Invoked (plugin_ref p) evs)
               (transform_loop res c i inMap ps ?code' ?ctx' (updateModuleInfo i (sd_meta r) g))"
    by (simp only: transform_loop.simps op if_False assms(2) option.case Let_def assms(3)
        prod.case sum.case transform_result.case)
  have cd: "?code' = (case sd_code r of None \<Rightarrow> code | Some cd \<Rightarrow> cd)"
    by (simp add: apply_object_result_def split: option.splits)
  have ch: "sourcemapChain ?ctx' =
             (case sd_code r of
                None \<Rightarrow> sourcemapChain ctx
              | Some cd \<Rightarrow>
                  (case truthy_map (sd_map r) of
                     None \<Rightarrow> sourcemapChain ctx
                   | Some m \<Rightarrow> sourcemapChain ctx @ [m]))"
    by (simp add: apply_object_result_def split: option.splits)
  have rest: "combinedMap ?ctx' = combinedMap ctx \<and>
           filename ?ctx' = filename ctx \<and> originalCode ?ctx' = originalCode ctx"
    by (simp add: apply_object_result_def split: option.splits)
  from step cd ch rest show ?thesis by blast
qed


lemmas transform_example_defs = ex_container_def sorted_as_def transforming_plugin_def
  plain_plugin_def transform_def new_TransformContext_def invoke_transform_def
  apply_object_result_def after_invocation_g_def getCombinedSourcemap_chain_def
  parse_member_def first_map_def ex_map_def truthy_string_def updateModuleInfo_def
  empty_sentinel_def

text \<open>
  C3 as stated fails: a plugin returns an object with a map and no code; the map is not
  pushed, so the transform returns no map. With a code beside the same map, the map is
  pushed and returned.
\<close>

theorem transform_object_result_counterexample:
  "transform 0 (ex_container False True (sorted_as [map_only])) ''X'' ''/f.js'' NoMap None =
     (Some (Inr \<lparr>out_code = ''X'', out_map = None\<rparr>), None, [Invoked 4 []]) \<and>
   transform 0 (ex_container False True (sorted_as [code_and_map])) ''X'' ''/f.js'' NoMap None =
     (Some (Inr \<lparr>out_code = ''Y'', out_map = Some (Versioned (ex_map ''AAAA''))\<rparr>), None,
           [Invoked 5 []])"
  by (simp add: transform_example_defs map_only_def code_and_map_def getModuleInfo_def)


text \<open>
  An instance of C3: the plugin returns the code \<^verbatim>\<open>Y\<close>, a map and a \<^verbatim>\<open>meta\<close> entry for the
  module \<^verbatim>\<open>/f.js\<close>; the code is replaced, the map is on the chain and the entry is in the
  module's info.
\<close>

theorem transform_object_result_witness:
  "\<not> (closed (ex_container False True (sorted_as [code_and_map])) \<and>
      recoverable (ex_container False True (sorted_as [code_and_map]))) \<and>
   transform_hook code_and_map \<noteq> None \<and>
   (\<exists>ctx'. transform_loop (resolveId 0 (ex_container False True (sorted_as [code_and_map])))
             (ex_container False True (sorted_as [code_and_map])) ''/f.js'' NoMap [code_and_map]
             ''X'' (new_TransformContext ''/f.js'' ''X'' NoMap) (Some ex_graph) =
           (Some (Inr (''Y'', ctx')),
                 updateModuleInfo ''/f.js'' (Some [''k'' \<mapsto> ''v'']) (Some ex_graph),
                 [Invoked 5 []]) \<and>
           sourcemapChain ctx' = [ChainObject (Versioned (ex_map ''AAAA''))]) \<and>
   Option.bind (updateModuleInfo ''/f.js'' (Some [''k'' \<mapsto> ''v'']) (Some ex_graph))
       (\<lambda>gr. map_option info (nodes gr 0)) =
     Some (Some \<lparr>info_id = ''/f.js'', info_meta = [''k'' \<mapsto> ''v'']\<rparr>)"
proof -
  let ?c = "ex_container False True (sorted_as [code_and_map])"
  let ?h = "HookObject (\<lambda>code i inMap s.
          Return (TransformObject
            \<lparr>sd_code = Some ''Y'', sd_map = MapObject (Versioned (ex_map ''AAAA'')),
             sd_meta = Some [''k'' \<mapsto> ''v'']\<rparr>))"
  let ?r = "\<lparr>sd_code = Some ''Y'', sd_map = MapObject (Versioned (ex_map ''AAAA'')),
             sd_meta = Some [''k'' \<mapsto> ''v'']\<rparr>"
  let ?ctx = "new_TransformContext ''/f.js'' ''X'' NoMap"
  have op: "\<not> (closed ?c \<and> recoverable ?c)" by (simp add: ex_container_def)
  have hk: "transform_hook code_and_map = Some ?h"
    by (simp add: code_and_map_def transforming_plugin_def plain_plugin_def)
  have iv: "invoke_transform (resolveId 0 ?c) ?c
           (?ctx\<lparr>activePlugin := Some code_and_map, activeId := Some ''/f.js'',
                 activeCode := Some ''X''\<rparr>)
           ?h ''X'' ''/f.js'' NoMap = (Some (Inr (TransformObject ?r)), [])"
    by (simp add: invoke_transform_def)
  have pr: "plugin_ref code_and_map = 5"
    by (simp add: code_and_map_def transforming_plugin_def plain_plugin_def)
  from transform_object_result [OF op hk iv, of "[]" "Some ex_graph"]
  have "\<exists>ctx'. transform_loop (resolveId 0 ?c) ?c ''/f.js'' NoMap [code_and_map]
             ''X'' ?ctx (Some ex_graph) =
           (Some (Inr (''Y'', ctx')),
                 updateModuleInfo ''/f.js'' (Some [''k'' \<mapsto> ''v'']) (Some ex_graph),
                 [Invoked 5 []]) \<and>
           sourcemapChain ctx' = [ChainObject (Versioned (ex_map ''AAAA''))]"
    by (auto simp: pr after_invocation_g_def new_TransformContext_def)
  moreover have "Option.bind (updateModuleInfo ''/f.js'' (Some [''k'' \<mapsto> ''v'']) (Some ex_graph))
       (\<lambda>gr. map_option info (nodes gr 0)) =
     Some (Some \<lparr>info_id = ''/f.js'', info_meta = [''k'' \<mapsto> ''v'']\<rparr>)"
    by (simp add: updateModuleInfo_def getModuleInfo_def getModuleById_def ex_graph_def
        ex_node_def Let_def)
  ultimately show ?thesis using op hk by simp
qed

subsection \<open>Skipping the calling plugin\<close>

lemma skipped_loop_not_invoked:
  "Option.bind options skip = Some S \<Longrightarrow>
     \<forall>e\<in>set (snd (resolveId_loop res c ctx rawId importer options ps)). invoked_ref e \<notin> S"
proof (induction ps arbitrary: ctx)
  case Nil
  show ?case by simp
next
  case (Cons p ps)
  have ih: "invoked_ref e \<notin> S"
    if "resolveId_loop res c ctx' rawId importer options ps = (r, evs)" and "e \<in> set evs"
    for ctx' r evs e
    using Cons.IH [OF Cons.prems, of ctx'] that by simp
  have ih': "invoked_ref e \<notin> S"
    if "e \<in> set (snd (resolveId_loop res c ctx' rawId importer options ps))" for ctx' e
    using Cons.IH [OF Cons.prems, of ctx'] that by simp
  show ?case
    using Cons.prems
    by (auto simp: skipped_def after_invocation_def dest: ih ih'
        split: option.splits prod.splits sum.splits)
qed

lemma snd_resolveId_body:
  "snd (resolveId_body res c rawId importer options) =
     snd (resolveId_loop res c (resolveId_context options) rawId (default_importer c importer)
            options (getSortedPlugins c ResolveIdHook))"
  by (simp add: resolveId_body_def split: option.splits prod.splits sum.splits)

lemma skipped_not_invoked:
  assumes "skip ro = Some S"
  shows "\<forall>e\<in>set (snd (resolveId n c rawId importer (Some ro))). invoked_ref e \<notin> S"
  using skipped_loop_not_invoked [of "Some ro" S] assms
  by (simp add: resolveId_unfold snd_resolveId_body)

lemma resolveId_loop_reached:
  assumes "\<not> (closed c \<and> recoverable c)"
    and "resolveId_eligible options p"
  shows "\<exists>nes evs'. snd (resolveId_loop res c ctx rawId importer options (p # post)) =
           Invoked (plugin_ref p) nes # evs'"
  using assms
  by (auto simp: resolveId_eligible_def after_invocation_def
      split: option.splits prod.splits sum.splits)

lemma snd_preceded_by: "snd (preceded_by evs0 out) = evs0 @ snd out"
  by (cases out) (simp add: preceded_by_def)

lemma reached_invoked:
  assumes op: "\<not> (closed c \<and> recoverable c)"
    and l: "getSortedPlugins c ResolveIdHook = pre @ p # post"
    and pass: "\<forall>q\<in>set pre. resolveId_passes n c rawId importer options q"
    and el: "resolveId_eligible options p"
  shows "\<exists>nes. Invoked (plugin_ref p) nes \<in> set (snd (resolveId n c rawId importer options))"
proof -
  from resolveId_loop_prefix [OF op pass] obtain evs0 where
    pf: "\<And>rest. resolveId_loop (nested n c) c (resolveId_context options) rawId
                    (default_importer c importer) options (pre @ rest) =
                  preceded_by evs0
                    (resolveId_loop (nested n c) c (resolveId_context options) rawId
                       (default_importer c importer) options rest)"
    by blast
  from resolveId_loop_reached [OF op el] obtain nes evs' where
    "snd (resolveId_loop (nested n c) c (resolveId_context options) rawId
            (default_importer c importer) options (p # post)) = Invoked (plugin_ref p) nes # evs'"
    by blast
  then have "snd (resolveId n c rawId importer options) = evs0 @ Invoked (plugin_ref p) nes # evs'"
    unfolding resolveId_unfold snd_resolveId_body l pf snd_preceded_by by simp
  then show ?thesis by auto
qed

lemma without_skipped_simps:
  "hook_options (without_skipped S c) options = hook_options c options"
  "finish_resolve (without_skipped S c) found = finish_resolve c found"
  "default_importer (without_skipped S c) imp = default_importer c imp"
  "invoke_resolveId res (without_skipped S c) ctx h rawId importer options =
     invoke_resolveId res c ctx h rawId importer options"
  "closed (without_skipped S c) = closed c"
  "recoverable (without_skipped S c) = recoverable c"
  "getSortedPlugins (without_skipped S c) hn = filter (\<lambda>q. plugin_ref q \<notin> S) (getSortedPlugins c hn)"
  by (simp_all add: without_skipped_def hook_options_def finish_resolve_def default_importer_def
      invoke_resolveId_def split: option.splits)

lemma resolveId_loop_without_skipped:
  assumes "\<not> (closed c \<and> recoverable c)" and "Option.bind options skip = Some S"
  shows "resolveId_loop res (without_skipped S c) ctx rawId importer options
           (filter (\<lambda>q. plugin_ref q \<notin> S) ps) =
         resolveId_loop res c ctx rawId importer options ps"
  using assms
  by (induction ps arbitrary: ctx)
    (auto simp: without_skipped_simps skipped_def split: option.splits prod.splits sum.splits)

lemma resolveId_body_without_skipped:
  assumes "\<not> (closed c \<and> recoverable c)" and "skip ro = Some S"
  shows "resolveId_body res (without_skipped S c) rawId importer (Some ro) =
         resolveId_body res c rawId importer (Some ro)"
  using resolveId_loop_without_skipped [OF assms(1), of "Some ro" S] assms(2)
  by (simp add: resolveId_body_def without_skipped_simps
      split: option.splits prod.splits sum.splits)

text \<open>
  C5, as the code has it. Let \<open>p\<close> be the active plugin of a plugin context that calls
  \<^verbatim>\<open>this.resolve(i, importer, options)\<close>.
  \<^item> If \<^verbatim>\<open>options.skipSelf\<close> is not \<^verbatim>\<open>false\<close>, the call re-enters the container's
    \<^verbatim>\<open>resolveId\<close> with a skip set that holds \<open>p\<close> and all the skips accumulated in the
    context, and that call invokes the \<^verbatim>\<open>resolveId\<close> handler neither of \<open>p\<close> nor of any
    accumulated skip: unless it raises ClosedServer, it is the call that the container
    would make with these plugins taken out of the sorted list (calls nested in it still see
    every plugin).
  \<^item> If \<^verbatim>\<open>options.skipSelf\<close> is \<^verbatim>\<open>false\<close>, the call re-enters \<^verbatim>\<open>resolveId\<close> with no skip
    set at all, so \<open>p\<close> is not skipped: when the re-entered call raises no ClosedServer and
    every plugin sorted before \<open>p\<close> passes, the \<^verbatim>\<open>resolveId\<close> handler of \<open>p\<close> is invoked
    again, whether or not the re-entered call then returns.
\<close>

theorem this_resolve_skip_self:
  assumes ap: "activePlugin ctx = Some p"
  shows
   "(Option.bind options skipSelf \<noteq> Some False \<longrightarrow>
       Context_resolve res ctx i importer options =
         res i importer
           (Some (passed_on ctx options (Some (insert (plugin_ref p) (accumulated_skips ctx))))) \<and>
       (\<forall>e\<in>set (snd (Context_resolve (resolveId n c) ctx i importer options)).
          invoked_ref e \<noteq> plugin_ref p \<and> invoked_ref e \<notin> accumulated_skips ctx) \<and>
       (\<not> (closed c \<and> recoverable c) \<longrightarrow>
          Context_resolve (resolveId n c) ctx i importer options =
            resolveId_body (nested n c)
              (without_skipped (insert (plugin_ref p) (accumulated_skips ctx)) c) i importer
              (Some (passed_on ctx options
                       (Some (insert (plugin_ref p) (accumulated_skips ctx))))))) \<and>
    (Option.bind options skipSelf = Some False \<longrightarrow>
       Context_resolve res ctx i importer options =
         res i importer (Some (passed_on ctx options None)) \<and>
       (\<forall>pre post.
          \<not> (closed c \<and> recoverable c) \<and>
          getSortedPlugins c ResolveIdHook = pre @ p # post \<and> resolveId_hook p \<noteq> None \<and>
          (\<forall>q\<in>set pre. resolveId_passes n c i importer (Some (passed_on ctx options None)) q) \<longrightarrow>
          (\<exists>nes. Invoked (plugin_ref p) nes \<in>
                   set (snd (Context_resolve (resolveId n c) ctx i importer options)))))"
proof (intro conjI impI allI)
  assume s: "Option.bind options skipSelf \<noteq> Some False"
  show "Context_resolve res ctx i importer options =
         res i importer
           (Some (passed_on ctx options (Some (insert (plugin_ref p) (accumulated_skips ctx)))))"
    using ap s by (simp add: Context_resolve_def passed_on_def accumulated_skips_def)
next
  assume s: "Option.bind options skipSelf \<noteq> Some False"
  have "Context_resolve (resolveId n c) ctx i importer options =
         resolveId n c i importer
           (Some (passed_on ctx options (Some (insert (plugin_ref p) (accumulated_skips ctx)))))"
    using ap s by (simp add: Context_resolve_def passed_on_def accumulated_skips_def)
  moreover have "\<forall>e\<in>set (snd (resolveId n c i importer
           (Some (passed_on ctx options (Some (insert (plugin_ref p) (accumulated_skips ctx))))))).
      invoked_ref e \<notin> insert (plugin_ref p) (accumulated_skips ctx)"
    by (rule skipped_not_invoked) (simp add: passed_on_def)
  ultimately
  show "\<forall>e\<in>set (snd (Context_resolve (resolveId n c) ctx i importer options)).
          invoked_ref e \<noteq> plugin_ref p \<and> invoked_ref e \<notin> accumulated_skips ctx"
    by simp
next
  assume s: "Option.bind options skipSelf \<noteq> Some False"
    and op: "\<not> (closed c \<and> recoverable c)"
  let ?S = "insert (plugin_ref p) (accumulated_skips ctx)"
  have "Context_resolve (resolveId n c) ctx i importer options =
         resolveId n c i importer (Some (passed_on ctx options (Some ?S)))"
    using ap s by (simp add: Context_resolve_def passed_on_def accumulated_skips_def)
  also have "\<dots> = resolveId_body (nested n c) c i importer (Some (passed_on ctx options (Some ?S)))"
    by (simp add: resolveId_unfold)
  also have "\<dots> = resolveId_body (nested n c) (without_skipped ?S c) i importer
                       (Some (passed_on ctx options (Some ?S)))"
    by (rule resolveId_body_without_skipped [OF op, symmetric]) (simp add: passed_on_def)
  finally show "Context_resolve (resolveId n c) ctx i importer options =
            resolveId_body (nested n c) (without_skipped ?S c) i importer
              (Some (passed_on ctx options (Some ?S)))" .
next
  assume s: "Option.bind options skipSelf = Some False"
  show "Context_resolve res ctx i importer options =
         res i importer (Some (passed_on ctx options None))"
    using ap s by (simp add: Context_resolve_def passed_on_def)
next
  fix pre post
  assume s: "Option.bind options skipSelf = Some False"
    and h: "\<not> (closed c \<and> recoverable c) \<and>
          getSortedPlugins c ResolveIdHook = pre @ p # post \<and> resolveId_hook p \<noteq> None \<and>
          (\<forall>q\<in>set pre. resolveId_passes n c i importer (Some (passed_on ctx options None)) q)"
  have cr: "Context_resolve (resolveId n c) ctx i importer options =
         resolveId n c i importer (Some (passed_on ctx options None))"
    using ap s by (simp add: Context_resolve_def passed_on_def)
  have el: "resolveId_eligible (Some (passed_on ctx options None)) p"
    using h by (simp add: resolveId_eligible_def skipped_def passed_on_def)
  from h have op: "\<not> (closed c \<and> recoverable c)"
    and l: "getSortedPlugins c ResolveIdHook = pre @ p # post"
    and pass: "\<forall>q\<in>set pre. resolveId_passes n c i importer (Some (passed_on ctx options None)) q"
    by simp_all
  from reached_invoked [OF op l pass el]
  show "\<exists>nes. Invoked (plugin_ref p) nes \<in>
                   set (snd (Context_resolve (resolveId n c) ctx i importer options))"
    unfolding cr .
qed

lemmas skipself_example_defs = example_defs resolves_x_def asks_for_x_def only_skipSelf_def
  Context_resolve_def invoking_def resolved_x_def passed_on_def accumulated_skips_def

lemma asks_again_fields:
  "plugin_ref (asks_again b) = 3"
  "resolveId_hook (asks_again b) =
     Some (HookFunction (\<lambda>rawId importer options.
       ThisResolve rawId None (only_skipSelf b)
         (\<lambda>out. case out of
                   Inl e \<Rightarrow> Throw e
                 | Inr None \<Rightarrow> Return (ResolveString ''/self'')
                 | Inr (Some r) \<Rightarrow> Return (ResolveObject r))))"
  by (simp_all add: asks_again_def resolving_plugin_def plain_plugin_def)

text \<open>
  C5 as stated fails in its last part. The plugin with reference 2 is sorted after a
  plugin that resolves \<^verbatim>\<open>x\<close>; asked for \<^verbatim>\<open>main\<close>, it calls
  \<^verbatim>\<open>this.resolve('x', undefined, {skipSelf: false})\<close>. The re-entered call stops at the
  first plugin, and the handler of the calling plugin is not invoked again.
\<close>

theorem this_resolve_skip_self_counterexample:
  "activePlugin (invoking (asks_for_x (Some False))) = Some (asks_for_x (Some False)) \<and>
   plugin_ref (asks_for_x (Some False)) = 2 \<and>
   Context_resolve
     (resolveId 0 (ex_container False True (sorted_as [resolves_x, asks_for_x (Some False)])))
     (invoking (asks_for_x (Some False))) ''x'' None (only_skipSelf (Some False)) =
     (Some (Inr resolved_x), [Invoked 1 []]) \<and>
   resolveId 1 (ex_container False True (sorted_as [resolves_x, asks_for_x (Some False)]))
     ''main'' None None =
     (Some (Inr resolved_x), [Invoked 1 [], Invoked 2 [Invoked 1 []]])"
  by (simp add: skipself_example_defs)

text \<open>
  Instances of C5, with the calling plugin sorted first. Without \<^verbatim>\<open>skipSelf\<close> the
  re-entered call invokes only the other plugin; with \<^verbatim>\<open>skipSelf: false\<close> it invokes the
  calling plugin again, and then the other one. And a plugin that answers every request by
  asking again with \<^verbatim>\<open>skipSelf: false\<close> is invoked again by the re-entered call, which does
  not return within the bound.
\<close>

theorem this_resolve_skip_self_witness:
  "activePlugin (invoking (asks_for_x None)) = Some (asks_for_x None) \<and>
   plugin_ref (asks_for_x None) = 2 \<and>
   Context_resolve
     (resolveId 0 (ex_container False True (sorted_as [asks_for_x None, resolves_x])))
     (invoking (asks_for_x None)) ''x'' None (only_skipSelf None) =
     (Some (Inr resolved_x), [Invoked 1 []]) \<and>
   Context_resolve
     (resolveId 0 (ex_container False True (sorted_as [asks_for_x (Some False), resolves_x])))
     (invoking (asks_for_x (Some False))) ''x'' None (only_skipSelf (Some False)) =
     (Some (Inr resolved_x), [Invoked 2 [], Invoked 1 []]) \<and>
   (\<exists>nes. Invoked (plugin_ref (asks_for_x (Some False))) nes \<in> set [Invoked 2 [], Invoked 1 []]) \<and>
   Context_resolve
     (resolveId 1 (ex_container False True (sorted_as [asks_again (Some False)])))
     (invoking (asks_again (Some False))) ''q'' None (only_skipSelf (Some False)) =
     (None, [Invoked 3 [Invoked 3 []]]) \<and>
   (\<exists>nes. Invoked (plugin_ref (asks_again (Some False))) nes \<in> set [Invoked 3 [Invoked 3 []]])"
proof -
  let ?p = "asks_for_x None"
  let ?c = "ex_container False True (sorted_as [?p, resolves_x])"
  let ?q = "asks_for_x (Some False)"
  let ?d = "ex_container False True (sorted_as [?q, resolves_x])"
  let ?a = "asks_again (Some False)"
  let ?e = "ex_container False True (sorted_as [?a])"
  have ap: "activePlugin (invoking ?p) = Some ?p" by (simp add: invoking_def)
  have aq: "activePlugin (invoking ?q) = Some ?q" by (simp add: invoking_def)
  have aa: "activePlugin (invoking ?a) = Some ?a" by (simp add: invoking_def)
  have rp: "plugin_ref ?p = 2" by (simp add: skipself_example_defs)
  have s1: "Option.bind (only_skipSelf None) skipSelf \<noteq> Some False"
    by (simp add: only_skipSelf_def)
  have s2: "Option.bind (only_skipSelf (Some False)) skipSelf = Some False"
    by (simp add: only_skipSelf_def)
  from this_resolve_skip_self [OF ap, of "only_skipSelf None" "resolveId 0 ?c" "''x''" None] s1
  have "Context_resolve (resolveId 0 ?c) (invoking ?p) ''x'' None (only_skipSelf None) =
      resolveId 0 ?c ''x'' None
        (Some (passed_on (invoking ?p) (only_skipSelf None)
                 (Some (insert (plugin_ref ?p) (accumulated_skips (invoking ?p))))))"
    by blast
  also have "\<dots> = (Some (Inr resolved_x), [Invoked 1 []])"
    by (simp add: skipself_example_defs)
  finally have w1: "Context_resolve (resolveId 0 ?c) (invoking ?p) ''x'' None (only_skipSelf None) =
      (Some (Inr resolved_x), [Invoked 1 []])" .
  have r2: "Context_resolve (resolveId 0 ?d) (invoking ?q) ''x'' None (only_skipSelf (Some False)) =
      (Some (Inr resolved_x), [Invoked 2 [], Invoked 1 []])"
    by (simp add: skipself_example_defs)
  have h2: "\<not> (closed ?d \<and> recoverable ?d) \<and>
      getSortedPlugins ?d ResolveIdHook = [] @ ?q # [resolves_x] \<and> resolveId_hook ?q \<noteq> None \<and>
      (\<forall>x\<in>set []. resolveId_passes 0 ?d ''x'' None
          (Some (passed_on (invoking ?q) (only_skipSelf (Some False)) None)) x)"
    by (simp add: ex_container_def sorted_as_def asks_for_x_def resolving_plugin_def plain_plugin_def)
  from this_resolve_skip_self [OF aq, of "only_skipSelf (Some False)" "resolveId 0 ?d" "''x''" None 0 ?d]
    s2 h2
  have "\<exists>nes. Invoked (plugin_ref ?q) nes \<in>
      set (snd (Context_resolve (resolveId 0 ?d) (invoking ?q) ''x'' None (only_skipSelf (Some False))))"
    by blast
  then have w2: "\<exists>nes. Invoked (plugin_ref ?q) nes \<in> set [Invoked 2 [], Invoked 1 []]"
    unfolding r2 by simp
  have r3: "Context_resolve (resolveId 1 ?e) (invoking ?a) ''q'' None (only_skipSelf (Some False)) =
      (None, [Invoked 3 [Invoked 3 []]])"
    by (simp add: resolveId_body_def ex_container_def sorted_as_def asks_again_fields skipped_def
        invoke_resolveId_def Context_resolve_def only_skipSelf_def resolveId_context_def
        new_Context_def invoking_def)
  have h3: "\<not> (closed ?e \<and> recoverable ?e) \<and>
      getSortedPlugins ?e ResolveIdHook = [] @ ?a # [] \<and> resolveId_hook ?a \<noteq> None \<and>
      (\<forall>x\<in>set []. resolveId_passes 1 ?e ''q'' None
          (Some (passed_on (invoking ?a) (only_skipSelf (Some False)) None)) x)"
    by (simp add: ex_container_def sorted_as_def asks_again_fields)
  from this_resolve_skip_self [OF aa, of "only_skipSelf (Some False)" "resolveId 1 ?e" "''q''" None 1 ?e]
    s2 h3
  have "\<exists>nes. Invoked (plugin_ref ?a) nes \<in>
      set (snd (Context_resolve (resolveId 1 ?e) (invoking ?a) ''q'' None (only_skipSelf (Some False))))"
    by blast
  then have w3: "\<exists>nes. Invoked (plugin_ref ?a) nes \<in> set [Invoked 3 [Invoked 3 []]]"
    unfolding r3 by simp
  from ap rp w1 r2 w2 r3 w3 show ?thesis by blast
qed

text \<open>
  Why the calling plugin is skipped by default: a plugin that answers every request by
  asking \<^verbatim>\<open>this.resolve\<close> for the same id with \<^verbatim>\<open>skipSelf: false\<close> is invoked again by every
  re-entered call, and no bound on the nesting lets the outermost call return. With the
  default it is skipped in the re-entered call, which returns.
\<close>

lemma asking_again_never_returns:
  "Option.bind options skip = None \<Longrightarrow>
     fst (resolveId n (ex_container False True (sorted_as [asks_again (Some False)]))
            rawId importer options) = None \<and>
     (\<exists>nes. snd (resolveId n (ex_container False True (sorted_as [asks_again (Some False)]))
                  rawId importer options) = [Invoked 3 nes])"
proof (induction n arbitrary: rawId importer options)
  case 0
  then show ?case
    by (simp add: resolveId_body_def ex_container_def sorted_as_def asks_again_fields skipped_def
        invoke_resolveId_def Context_resolve_def only_skipSelf_def resolveId_context_def
        new_Context_def)
next
  case (Suc n)
  let ?c = "ex_container False True (sorted_as [asks_again (Some False)])"
  let ?ro = "Some \<lparr>ro_attributes = None, ro_custom = None, skip = None,
                   ro_scan = Some (Option.bind options ro_scan = Some True),
                   ro_isEntry = Some False\<rparr>"
  have c: "closed ?c = False" "getSortedPlugins ?c ResolveIdHook = [asks_again (Some False)]"
    by (simp_all add: ex_container_def sorted_as_def)
  from Suc.IH [of ?ro rawId None] obtain nes where
    "resolveId n ?c rawId None ?ro = (None, [Invoked 3 nes])"
    by (cases "resolveId n ?c rawId None ?ro") auto
  then show ?case
    using Suc.prems
    by (simp add: resolveId_body_def c asks_again_fields skipped_def
        invoke_resolveId_def Context_resolve_def only_skipSelf_def resolveId_context_def
        new_Context_def)
qed

lemma asking_others_returns:
  "resolveId (Suc n) (ex_container False True (sorted_as [asks_again None])) ''q'' None None =
     (Some (Inr (Some \<lparr>res_id = ''/self'', res_external = None, res_meta = None\<rparr>)), [Invoked 3 []])"
  by (cases n)
    (simp_all add: resolveId_body_def ex_container_def sorted_as_def asks_again_fields skipped_def
        invoke_resolveId_def Context_resolve_def only_skipSelf_def resolveId_context_def
        new_Context_def default_importer_def hook_options_def finish_resolve_def)

end
